theory Spec2Isabelle
  imports Main
begin

section \<open>SqStream: a duplex stream over an SQS queue\<close>

text \<open>
  The embedding follows \<^verbatim>\<open>src/index.js\<close>. The object's fields are the fields of the
  record \<open>sqstream\<close>. JavaScript runs one callback at a time, so every callback of the
  source (a \<^verbatim>\<open>setImmediate\<close> callback, an interval tick, the callback of an SQS
  request, a call of \<^verbatim>\<open>_read\<close>, \<^verbatim>\<open>_write\<close> or the \<^verbatim>\<open>prefinish\<close> handler) is one
  function from state to state. The handlers of a settled Q promise run from
  \<^verbatim>\<open>process.nextTick\<close>, before any other callback of the event loop, so the handlers
  chained on a promise are part of the step that settles it.

  Two more fields stand for the world around the object: \<open>tasks\<close>, the callbacks the
  event loop still owes the object (pending immediates, armed intervals, SQS requests
  awaiting their reply), and \<open>trace\<close>, the calls the object has made to the service
  and to the stream base class, in order.
\<close>

subsection \<open>Data\<close>

datatype sqs_error = SqsError string

record message =
  MessageId :: string
  ReceiptHandle :: string
  Body :: string

datatype delete_entry = DeleteEntry (delete_Id: string) (delete_ReceiptHandle: string)

datatype send_entry = SendEntry (send_Id: string) (send_MessageBody: string)

text \<open>
  A call of \<^verbatim>\<open>getUrl\<close> comes from one of three places; the value records which
  \<^verbatim>\<open>then\<close>/\<^verbatim>\<open>fail\<close> handlers hang on the promise and what their closures hold.
\<close>

datatype url_use =
    ForReceive
  | ForDelete "delete_entry list" "message list"
  | ForSend "send_entry list"

datatype task =
    UrlImmediate url_use
  | UrlLookup url_use
  | Receive
  | DeleteImmediate "message list"
  | DeleteBatch "message list"
  | SendBatch
  | ResolveFalse
  | DrainTimer
  | WriteTimer string nat

datatype action =
    GetQueueUrl string
  | ReceiveMessage string nat nat
  | DeleteMessageBatch "delete_entry list" string
  | SendMessageBatch string "send_entry list"
  | Push message
  | PushEnd
  | EmitError sqs_error
  | WriteCallback nat

record sqstream =
  queueName :: string
  maxMessageSize :: nat
  maxMessagesPerSend :: nat
  maxMessagesPerGet :: nat
  visibilityTimeout :: nat
  queueUrl :: "string option"
  inFlightAcks :: int
  waitingToEnd :: bool
  pendingWrites :: "string list"
  sendingMessages :: bool
  tasks :: "task list"
  trace :: "action list"

text \<open>The constructor (lines 12-36).\<close>

definition SqStream :: "string \<Rightarrow> sqstream" where
  "SqStream name =
     \<lparr> queueName = name,
       maxMessageSize = 262144,
       maxMessagesPerSend = 10,
       maxMessagesPerGet = 10,
       visibilityTimeout = 30,
       queueUrl = None,
       inFlightAcks = 0,
       waitingToEnd = False,
       pendingWrites = [],
       sendingMessages = False,
       tasks = [],
       trace = [] \<rparr>"

subsection \<open>Small pieces\<close>

definition schedule :: "task \<Rightarrow> sqstream \<Rightarrow> sqstream" where
  "schedule t s = s\<lparr>tasks := tasks s @ [t]\<rparr>"

definition call :: "action \<Rightarrow> sqstream \<Rightarrow> sqstream" where
  "call a s = s\<lparr>trace := trace s @ [a]\<rparr>"

text \<open>\<^verbatim>\<open>this.push(message)\<close> and \<^verbatim>\<open>messages.forEach(this.push.bind(this))\<close>.\<close>

definition push :: "message \<Rightarrow> sqstream \<Rightarrow> sqstream" where
  "push m s = call (Push m) s"

definition forEach_push :: "message list \<Rightarrow> sqstream \<Rightarrow> sqstream" where
  "forEach_push msgs s = fold push msgs s"

text \<open>
  A JavaScript string is modelled by its UTF-8 bytes, so \<^verbatim>\<open>Buffer.byteLength\<close> is the
  length of the list. The empty string is the only string that counts as false.
\<close>

definition byteLength :: "string \<Rightarrow> nat" where
  "byteLength m = length m"

definition truthy :: "string \<Rightarrow> bool" where
  "truthy str = (str \<noteq> [])"

text \<open>\<^verbatim>\<open>idx.toString()\<close> of a non-negative integer: its decimal digits.\<close>

definition digit :: "nat \<Rightarrow> char" where
  "digit d = ''0123456789'' ! d"

function toString :: "nat \<Rightarrow> string" where
  "toString n = (if n < 10 then [digit n] else toString (n div 10) @ [digit (n mod 10)])"
  by pat_completeness auto
termination
  by (relation "measure (\<lambda>n. n)") auto

declare toString.simps [simp del]

subsection \<open>getUrl (lines 42-63)\<close>

text \<open>
  \<open>getUrl\<close> only schedules the immediate. \<open>getUrl_cached\<close> is the test
  \<^verbatim>\<open>if (this._queueUrl)\<close> of the immediate: the cached address when there is a true
  one. \<open>getUrl_lookup_done\<close> is the callback of \<^verbatim>\<open>sqs.getQueueUrl\<close>: the new state and
  how the promise settles (\<open>Inl\<close> rejected, \<open>Inr\<close> resolved).
\<close>

definition getUrl :: "url_use \<Rightarrow> sqstream \<Rightarrow> sqstream" where
  "getUrl k s = schedule (UrlImmediate k) s"

definition getUrl_cached :: "sqstream \<Rightarrow> string option" where
  "getUrl_cached s =
     (case queueUrl s of
        None \<Rightarrow> None
      | Some u \<Rightarrow> if truthy u then Some u else None)"

definition getUrl_lookup_done :: "sqs_error + string \<Rightarrow> sqstream \<Rightarrow> sqstream \<times> (sqs_error + string)" where
  "getUrl_lookup_done r s =
     (case r of
        Inl err \<Rightarrow> (s, Inl err)
      | Inr u \<Rightarrow> (s\<lparr>queueUrl := Some u\<rparr>, Inr u))"

subsection \<open>The read side\<close>

text \<open>
  The handlers chained in \<open>handleMessages\<close> on the promise of \<open>deleteMessages\<close>
  (lines 138-144): \<^verbatim>\<open>then\<close> pushes every message, \<^verbatim>\<open>fail\<close> rejects the deferred of
  \<open>handleMessages\<close>, \<^verbatim>\<open>fin\<close> decrements the counter. \<^verbatim>\<open>_read\<close> attaches no handler to
  the promise of \<open>handleMessages\<close>, so the rejection changes nothing.
\<close>

definition delete_settled :: "message list \<Rightarrow> sqs_error option \<Rightarrow> sqstream \<Rightarrow> sqstream" where
  "delete_settled messages r s =
     (let s1 = (case r of None \<Rightarrow> forEach_push messages s | Some err \<Rightarrow> s)
      in s1\<lparr>inFlightAcks := inFlightAcks s1 - 1\<rparr>)"

text \<open>
  What the promise of \<open>getUrl\<close> runs once settled, for each of its three callers:
  \<open>getMessages\<close> (lines 70-77) calls \<^verbatim>\<open>receiveMessage\<close> and has no \<^verbatim>\<open>fail\<close> handler,
  \<open>deleteMessages\<close> (lines 103-110) calls \<^verbatim>\<open>deleteMessageBatch\<close> or rejects its deferred,
  \<open>processWrites\<close> (lines 176-186) calls \<^verbatim>\<open>sendMessageBatch\<close> and has no \<^verbatim>\<open>fail\<close>
  handler.
\<close>

fun url_settled :: "url_use \<Rightarrow> sqs_error + string \<Rightarrow> sqstream \<Rightarrow> sqstream" where
  "url_settled ForReceive (Inr url) s =
     schedule Receive (call (ReceiveMessage url (maxMessagesPerGet s) (visibilityTimeout s)) s)"
| "url_settled ForReceive (Inl err) s = s"
| "url_settled (ForDelete entries messages) (Inr url) s =
     schedule (DeleteBatch messages) (call (DeleteMessageBatch entries url) s)"
| "url_settled (ForDelete entries messages) (Inl err) s =
     delete_settled messages (Some err) s"
| "url_settled (ForSend entries) (Inr url) s =
     schedule SendBatch (call (SendMessageBatch url entries) s)"
| "url_settled (ForSend entries) (Inl err) s = s"

text \<open>The immediate of \<open>getUrl\<close> (lines 45-60) and the callback of the lookup.\<close>

definition getUrl_immediate :: "url_use \<Rightarrow> sqstream \<Rightarrow> sqstream" where
  "getUrl_immediate k s =
     (case getUrl_cached s of
        Some u \<Rightarrow> url_settled k (Inr u) s
      | None \<Rightarrow> schedule (UrlLookup k) (call (GetQueueUrl (queueName s)) s))"

definition getUrl_callback :: "url_use \<Rightarrow> sqs_error + string \<Rightarrow> sqstream \<Rightarrow> sqstream" where
  "getUrl_callback k r s =
     (case getUrl_lookup_done r s of (s1, settled) \<Rightarrow> url_settled k settled s1)"

text \<open>\<open>getMessages\<close> (lines 69-81) and \<^verbatim>\<open>_read\<close> (lines 153-155).\<close>

definition getMessages :: "sqstream \<Rightarrow> sqstream" where
  "getMessages s = getUrl ForReceive s"

definition sq_read :: "sqstream \<Rightarrow> sqstream" where
  "sq_read s = getMessages s"

text \<open>\<open>deleteMessages\<close> (lines 88-114): the call, and its immediate.\<close>

definition deleteMessages :: "message list \<Rightarrow> sqstream \<Rightarrow> sqstream" where
  "deleteMessages messages s = schedule (DeleteImmediate messages) s"

definition deleteMessages_immediate :: "message list \<Rightarrow> sqstream \<Rightarrow> sqstream" where
  "deleteMessages_immediate messages s =
     (let entries = map (\<lambda>m. DeleteEntry (MessageId m) (ReceiptHandle m)) messages
      in if length entries = 0 then delete_settled messages None s
         else getUrl (ForDelete entries messages) s)"

text \<open>
  \<open>handleMessages\<close> (lines 121-148). Its argument is \<^verbatim>\<open>data.Messages\<close>: \<open>None\<close> when
  the reply has no such field. \<^verbatim>\<open>! messages\<close> is true for \<open>None\<close> only: an array,
  empty or not, counts as true.
\<close>

definition handleMessages :: "message list option \<Rightarrow> sqstream \<Rightarrow> sqstream" where
  "handleMessages messages s =
     (if waitingToEnd s then schedule ResolveFalse s
      else case messages of
        None \<Rightarrow> schedule DrainTimer (s\<lparr>waitingToEnd := True\<rparr>)
      | Some msgs \<Rightarrow> deleteMessages msgs (s\<lparr>inFlightAcks := inFlightAcks s + 1\<rparr>))"

text \<open>
  One tick of the interval armed in \<open>handleMessages\<close> (lines 128-134). The state it
  gets has the timer taken out of \<open>tasks\<close>; a tick that returns early arms it again.
\<close>

definition drain_tick :: "sqstream \<Rightarrow> sqstream" where
  "drain_tick s =
     (if inFlightAcks s > 0 then schedule DrainTimer s
      else call PushEnd s)"

subsection \<open>The write side\<close>

text \<open>\<open>readyForWrite\<close> (lines 197-215); \<open>None\<close> is the call without an argument.\<close>

definition readyForWrite :: "string option \<Rightarrow> sqstream \<Rightarrow> bool" where
  "readyForWrite message s =
     (if length (pendingWrites s) \<ge> maxMessagesPerSend s then False
      else if sendingMessages s then False
      else
        let size = foldl (\<lambda>sum m. sum + byteLength m)
                     (case message of
                        Some m \<Rightarrow> if truthy m then byteLength m else 0
                      | None \<Rightarrow> 0)
                     (pendingWrites s)
        in if size + size \<ge> maxMessageSize s then False else True)"

text \<open>The \<^verbatim>\<open>reduce\<close> of \<open>processWrites\<close> (lines 167-174): \<open>memo\<close>, and the index \<open>idx\<close>.\<close>

fun reduce_entries :: "send_entry list \<Rightarrow> nat \<Rightarrow> string list \<Rightarrow> send_entry list" where
  "reduce_entries memo idx [] = memo"
| "reduce_entries memo idx (m # ms) =
     reduce_entries (memo @ [SendEntry (toString idx) m]) (Suc idx) ms"

text \<open>\<open>processWrites\<close> (lines 160-187), up to the call of \<open>getUrl\<close>.\<close>

definition processWrites :: "sqstream \<Rightarrow> sqstream" where
  "processWrites s =
     (if length (pendingWrites s) = 0 then s
      else
        let s1 = s\<lparr>sendingMessages := True\<rparr>;
            pending = pendingWrites s1;
            s2 = s1\<lparr>pendingWrites := []\<rparr>;
            entries = reduce_entries [] 0 pending
        in getUrl (ForSend entries) s2)"

text \<open>The callback of \<^verbatim>\<open>sendMessageBatch\<close> (lines 180-185).\<close>

definition sendMessageBatch_callback :: "sqs_error option \<Rightarrow> sqstream \<Rightarrow> sqstream" where
  "sendMessageBatch_callback err s =
     (let s1 = s\<lparr>sendingMessages := False\<rparr>
      in case err of
           Some e \<Rightarrow> call (EmitError e) s1
         | None \<Rightarrow> s1)"

text \<open>\<open>queueWrite\<close> (lines 189-195); the callback is known by a number.\<close>

definition queueWrite :: "string \<Rightarrow> nat \<Rightarrow> sqstream \<Rightarrow> sqstream" where
  "queueWrite message callback s =
     (let s1 = call (WriteCallback callback) s;
          s2 = s1\<lparr>pendingWrites := pendingWrites s1 @ [message]\<rparr>
      in if \<not> readyForWrite None s2 then processWrites s2 else s2)"

text \<open>
  The chunk handed to \<^verbatim>\<open>_write\<close> (lines 223-231). Each constructor carries the text the
  built-in conversion gives: \<^verbatim>\<open>toString()\<close> of a buffer, the string itself,
  \<^verbatim>\<open>JSON.stringify\<close> of an object, \<^verbatim>\<open>toString()\<close> of any other value.
\<close>

datatype chunk = Binary string | Text string | Structured string | Other string

fun normalize :: "chunk \<Rightarrow> string" where
  "normalize (Binary b) = b"
| "normalize (Text t) = t"
| "normalize (Structured j) = j"
| "normalize (Other t) = t"

text \<open>\<^verbatim>\<open>_write\<close> (lines 223-243) and one tick of its interval (lines 236-241).\<close>

definition sq_write :: "chunk \<Rightarrow> nat \<Rightarrow> sqstream \<Rightarrow> sqstream" where
  "sq_write c callback s =
     (let message = normalize c
      in if readyForWrite (Some message) s then queueWrite message callback s
         else schedule (WriteTimer message callback) s)"

definition write_tick :: "string \<Rightarrow> nat \<Rightarrow> sqstream \<Rightarrow> sqstream" where
  "write_tick message callback s =
     (if readyForWrite None s then queueWrite message callback s
      else schedule (WriteTimer message callback) s)"

subsection \<open>The event loop\<close>

text \<open>
  What the world can do to the object: the stream base class calls \<^verbatim>\<open>_read\<close> or
  \<^verbatim>\<open>_write\<close> or emits \<^verbatim>\<open>prefinish\<close>, or the event loop runs the task at a position of
  \<open>tasks\<close>, with the reply of the service where the task is a request.
\<close>

datatype reply =
    Fired
  | UrlReply "sqs_error + string"
  | ReceiveReply "sqs_error + message list option"
  | DeleteReply "sqs_error option"
  | SendReply "sqs_error option"

datatype event =
    Read
  | Write chunk nat
  | Prefinish
  | Run nat reply

text \<open>
  \<open>dispatch t r s\<close> runs task \<open>t\<close> with reply \<open>r\<close> in the state \<open>s\<close> from which
  \<open>t\<close> has been taken out; \<open>None\<close> when the reply is not one for this task.
  A failed \<^verbatim>\<open>receiveMessage\<close> rejects the promise of \<open>getMessages\<close>, which has no
  \<^verbatim>\<open>fail\<close> handler.
\<close>

fun dispatch :: "task \<Rightarrow> reply \<Rightarrow> sqstream \<Rightarrow> sqstream option" where
  "dispatch (UrlImmediate k) Fired s = Some (getUrl_immediate k s)"
| "dispatch (UrlLookup k) (UrlReply r) s = Some (getUrl_callback k r s)"
| "dispatch Receive (ReceiveReply (Inr messages)) s = Some (handleMessages messages s)"
| "dispatch Receive (ReceiveReply (Inl err)) s = Some s"
| "dispatch (DeleteImmediate messages) Fired s = Some (deleteMessages_immediate messages s)"
| "dispatch (DeleteBatch messages) (DeleteReply r) s = Some (delete_settled messages r s)"
| "dispatch SendBatch (SendReply r) s = Some (sendMessageBatch_callback r s)"
| "dispatch ResolveFalse Fired s = Some s"
| "dispatch DrainTimer Fired s = Some (drain_tick s)"
| "dispatch (WriteTimer message callback) Fired s = Some (write_tick message callback s)"
| "dispatch _ _ _ = None"

definition remove_nth :: "nat \<Rightarrow> 'a list \<Rightarrow> 'a list" where
  "remove_nth i xs = take i xs @ drop (Suc i) xs"

fun step :: "sqstream \<Rightarrow> event \<Rightarrow> sqstream option" where
  "step s Read = Some (sq_read s)"
| "step s (Write c callback) = Some (sq_write c callback s)"
| "step s Prefinish = Some (processWrites s)"
| "step s (Run i r) =
     (if i < length (tasks s)
      then dispatch (tasks s ! i) r (s\<lparr>tasks := remove_nth i (tasks s)\<rparr>)
      else None)"

fun run :: "sqstream \<Rightarrow> event list \<Rightarrow> sqstream option" where
  "run s [] = Some s"
| "run s (e # es) = (case step s e of None \<Rightarrow> None | Some s' \<Rightarrow> run s' es)"

subsection \<open>What an observer sees, and what is outstanding\<close>

text \<open>The messages handed to the reader, in order: the \<open>Push\<close> actions of a trace.\<close>

fun pushed :: "action list \<Rightarrow> message list" where
  "pushed [] = []"
| "pushed (Push m # as) = m # pushed as"
| "pushed (a # as) = pushed as"

text \<open>
  The tasks that belong to an acknowledgment under way (from \<open>deleteMessages\<close> to the
  reply of \<^verbatim>\<open>deleteMessageBatch\<close>) and those that belong to a flush under way (from
  \<open>processWrites\<close> to the reply of \<^verbatim>\<open>sendMessageBatch\<close>).
\<close>

fun ack_task :: "task \<Rightarrow> bool" where
  "ack_task (DeleteImmediate ms) = True"
| "ack_task (DeleteBatch ms) = True"
| "ack_task (UrlImmediate (ForDelete es ms)) = True"
| "ack_task (UrlLookup (ForDelete es ms)) = True"
| "ack_task t = False"

fun flush_task :: "task \<Rightarrow> bool" where
  "flush_task (UrlImmediate (ForSend es)) = True"
| "flush_task (UrlLookup (ForSend es)) = True"
| "flush_task SendBatch = True"
| "flush_task t = False"

definition outstanding :: "(task \<Rightarrow> bool) \<Rightarrow> sqstream \<Rightarrow> nat" where
  "outstanding P s = length (filter P (tasks s))"

definition acks_counted :: "sqstream \<Rightarrow> bool" where
  "acks_counted s = (inFlightAcks s = int (outstanding ack_task s))"

fun drain_task :: "task \<Rightarrow> bool" where
  "drain_task DrainTimer = True"
| "drain_task t = False"

text \<open>
  More readings of a trace: how often the end of the stream was signalled, the errors
  emitted, the batches sent, the write callbacks invoked, the lookups issued.
\<close>

fun ends :: "action list \<Rightarrow> nat" where
  "ends [] = 0"
| "ends (PushEnd # as) = Suc (ends as)"
| "ends (a # as) = ends as"

fun errors :: "action list \<Rightarrow> sqs_error list" where
  "errors [] = []"
| "errors (EmitError e # as) = e # errors as"
| "errors (a # as) = errors as"

fun sent :: "action list \<Rightarrow> (string \<times> send_entry list) list" where
  "sent [] = []"
| "sent (SendMessageBatch url entries # as) = (url, entries) # sent as"
| "sent (a # as) = sent as"

fun completed :: "action list \<Rightarrow> nat list" where
  "completed [] = []"
| "completed (WriteCallback cb # as) = cb # completed as"
| "completed (a # as) = completed as"

fun lookups :: "action list \<Rightarrow> string list" where
  "lookups [] = []"
| "lookups (GetQueueUrl name # as) = name # lookups as"
| "lookups (a # as) = lookups as"

text \<open>
  Facts that hold in every state the object can reach: the counter is the number of
  acknowledgments under way; there is a drain timer only while waiting to end, and at
  most one; at most one flush is under way, the busy flag is set while it is, and the
  buffer is empty while the flag is set.
\<close>

definition drain_single :: "sqstream \<Rightarrow> bool" where
  "drain_single s =
     (if waitingToEnd s then outstanding drain_task s \<le> 1 else outstanding drain_task s = 0)"


text \<open>
  \<open>ended\<close>: waiting to end, with no acknowledgment under way and no drain timer.
  \<open>stuck\<close>: the busy flag is set and no flush is under way that could clear it.
\<close>

definition ended :: "sqstream \<Rightarrow> bool" where
  "ended s = (waitingToEnd s \<and> outstanding ack_task s = 0 \<and> outstanding drain_task s = 0)"


text \<open>
  The messages of the batch whose \<^verbatim>\<open>deleteMessageBatch\<close> request the event answers
  without an error; no message for any other event.
\<close>

fun delivered :: "sqstream \<Rightarrow> event \<Rightarrow> message list" where
  "delivered s (Run i (DeleteReply None)) =
     (if i < length (tasks s)
      then (case tasks s ! i of DeleteBatch msgs \<Rightarrow> msgs | _ \<Rightarrow> [])
      else [])"
| "delivered s e = []"

text \<open>A payload of 131072 bytes, half of \<open>maxMessageSize\<close>.\<close>

definition half_max_payload :: string where
  "half_max_payload = replicate 131072 CHR ''a''"

text \<open>
  \<open>answers u e\<close>: if the event is a reply of \<^verbatim>\<open>getQueueUrl\<close> that carries an address,
  the address is \<open>u\<close>. A service that gives one address for the queue answers so at
  every event.
\<close>

fun answers :: "string \<Rightarrow> event \<Rightarrow> bool" where
  "answers u (Run i (UrlReply (Inr v))) = (v = u)"
| "answers u e = True"

text \<open>
  \<open>batch_bounded\<close>: the buffer holds fewer entries than \<open>maxMessagesPerSend\<close>, and no
  flush under way and no batch sent holds more than \<open>maxMessagesPerSend\<close>.
\<close>

fun flush_fits :: "nat \<Rightarrow> task \<Rightarrow> bool" where
  "flush_fits n (UrlImmediate (ForSend es)) = (length es \<le> n)"
| "flush_fits n (UrlLookup (ForSend es)) = (length es \<le> n)"
| "flush_fits n t = True"

definition batch_bounded :: "sqstream \<Rightarrow> bool" where
  "batch_bounded s =
     (length (pendingWrites s) < maxMessagesPerSend s
      \<and> list_all (flush_fits (maxMessagesPerSend s)) (tasks s)
      \<and> list_all (\<lambda>(url, es). length es \<le> maxMessagesPerSend s) (sent (trace s)))"

section \<open>Properties\<close>

subsection \<open>Basic facts\<close>

lemmas sq_defs = schedule_def call_def byteLength_def truthy_def
  getUrl_def getUrl_cached_def getUrl_lookup_done_def delete_settled_def getUrl_immediate_def
  getUrl_callback_def getMessages_def sq_read_def deleteMessages_def deleteMessages_immediate_def
  handleMessages_def drain_tick_def readyForWrite_def processWrites_def
  sendMessageBatch_callback_def queueWrite_def sq_write_def write_tick_def

lemma pushed_append: "pushed (xs @ ys) = pushed xs @ pushed ys"
  by (induction xs rule: pushed.induct) auto

lemma pushed_map_Push: "pushed (map Push msgs) = msgs"
  by (induction msgs) auto

lemma forEach_push_eq: "forEach_push msgs s = s\<lparr>trace := trace s @ map Push msgs\<rparr>"
  unfolding forEach_push_def
  by (induction msgs arbitrary: s) (auto simp: push_def call_def)

lemma filter_remove_nth:
  "i < length xs \<Longrightarrow>
   length (filter P xs) = length (filter P (remove_nth i xs)) + (if P (xs ! i) then 1 else 0)"
proof -
  assume "i < length xs"
  then have "xs = take i xs @ xs ! i # drop (Suc i) xs"
    by (rule id_take_nth_drop)
  then have "filter P xs = filter P (take i xs) @ filter P (xs ! i # drop (Suc i) xs)"
    by (metis filter_append)
  then show ?thesis
    by (simp add: remove_nth_def)
qed

lemma step_Run:
  "step s (Run i r) = Some s' \<Longrightarrow>
   i < length (tasks s) \<and> dispatch (tasks s ! i) r (s\<lparr>tasks := remove_nth i (tasks s)\<rparr>) = Some s'"
  by (simp split: if_splits)

subsection \<open>The counter counts the acknowledgments under way\<close>

lemma ack_task_lookup: "ack_task (UrlLookup k) = ack_task (UrlImmediate k)"
  by (cases k) auto

lemma acks_url_settled:
  "inFlightAcks s = int (length (filter ack_task (tasks s))) + (if ack_task (UrlImmediate k) then 1 else 0) \<Longrightarrow>
   inFlightAcks (url_settled k r s) = int (length (filter ack_task (tasks (url_settled k r s))))"
  by (cases "(k, r, s)" rule: url_settled.cases) (auto simp: sq_defs)

lemma acks_dispatch:
  "dispatch t r s = Some s' \<Longrightarrow>
   inFlightAcks s = int (outstanding ack_task s) + (if ack_task t then 1 else 0) \<Longrightarrow>
   acks_counted s'"
  apply (cases "(t, r, s)" rule: dispatch.cases)
  apply (auto simp: sq_defs acks_counted_def outstanding_def Let_def forEach_push_eq ack_task_lookup
        intro!: acks_url_settled
        split: option.splits if_splits prod.splits sum.splits)
  done

lemma acks_step:
  assumes "acks_counted s" and "step s e = Some s'"
  shows "acks_counted s'"
proof (cases e)
  case Read
  with assms show ?thesis
    by (auto simp: sq_defs acks_counted_def outstanding_def)
next
  case (Write c cb)
  with assms show ?thesis
    by (auto simp: sq_defs acks_counted_def outstanding_def Let_def)
next
  case Prefinish
  with assms show ?thesis
    by (auto simp: sq_defs acks_counted_def outstanding_def Let_def)
next
  case (Run i r)
  with assms have i: "i < length (tasks s)"
    and d: "dispatch (tasks s ! i) r (s\<lparr>tasks := remove_nth i (tasks s)\<rparr>) = Some s'"
    using step_Run by blast+
  from assms(1) filter_remove_nth [OF i, of ack_task]
  have "inFlightAcks (s\<lparr>tasks := remove_nth i (tasks s)\<rparr>) =
        int (outstanding ack_task (s\<lparr>tasks := remove_nth i (tasks s)\<rparr>)) +
        (if ack_task (tasks s ! i) then 1 else 0)"
    by (simp add: acks_counted_def outstanding_def)
  with d show ?thesis by (rule acks_dispatch)
qed

lemma acks_run:
  "acks_counted s \<Longrightarrow> run s es = Some s' \<Longrightarrow> acks_counted s'"
  by (induction es arbitrary: s) (auto split: option.splits dest: acks_step)

lemma acks_init: "acks_counted (SqStream name)"
  by (simp add: acks_counted_def outstanding_def SqStream_def)

subsection \<open>Completion of a flush\<close>

text \<open>
  C8. When \<^verbatim>\<open>sendMessageBatch\<close> calls back, the flush is over. Without an error the
  busy flag is cleared and nothing else in the object changes: no call, no new task.
  With an error the busy flag is cleared and the error is emitted once on the stream's
  \<^verbatim>\<open>error\<close> event; the buffer is not refilled and no request is issued again, so the
  batch is dropped without a retry.
\<close>

theorem flush_completion:
  assumes "i < length (tasks s)" and "tasks s ! i = SendBatch"
  shows "step s (Run i (SendReply None)) =
           Some (s\<lparr>tasks := remove_nth i (tasks s), sendingMessages := False\<rparr>)
       \<and> step s (Run i (SendReply (Some e))) =
           Some (s\<lparr>tasks := remove_nth i (tasks s), sendingMessages := False,
                   trace := trace s @ [EmitError e]\<rparr>)"
  using assms by (simp add: sq_defs)

theorem flush_completion_witness:
  "0 < length (tasks ((SqStream ''q'')\<lparr>sendingMessages := True, tasks := [SendBatch]\<rparr>))
   \<and> tasks ((SqStream ''q'')\<lparr>sendingMessages := True, tasks := [SendBatch]\<rparr>) ! 0 = SendBatch
   \<and> step ((SqStream ''q'')\<lparr>sendingMessages := True, tasks := [SendBatch]\<rparr>) (Run 0 (SendReply None)) =
       Some (SqStream ''q'')
   \<and> step ((SqStream ''q'')\<lparr>sendingMessages := True, tasks := [SendBatch]\<rparr>)
         (Run 0 (SendReply (Some (SqsError ''throttled'')))) =
       Some ((SqStream ''q'')\<lparr>trace := [EmitError (SqsError ''throttled'')]\<rparr>)"
  using flush_completion [of 0 "(SqStream ''q'')\<lparr>sendingMessages := True, tasks := [SendBatch]\<rparr>"
                             "SqsError ''throttled''"]
  by (simp add: SqStream_def remove_nth_def)

subsection \<open>Reading a trace; facts about draining\<close>

lemma ends_append: "ends (xs @ ys) = ends xs + ends ys"
  by (induction xs rule: ends.induct) auto

lemma errors_append: "errors (xs @ ys) = errors xs @ errors ys"
  by (induction xs rule: errors.induct) auto

lemma sent_append: "sent (xs @ ys) = sent xs @ sent ys"
  by (induction xs rule: sent.induct) auto

lemma completed_append: "completed (xs @ ys) = completed xs @ completed ys"
  by (induction xs rule: completed.induct) auto

lemma lookups_append: "lookups (xs @ ys) = lookups xs @ lookups ys"
  by (induction xs rule: lookups.induct) auto

lemma observe_map_Push:
  "ends (map Push msgs) = 0" "errors (map Push msgs) = []" "sent (map Push msgs) = []"
  "completed (map Push msgs) = []" "lookups (map Push msgs) = []"
  by (induction msgs) auto

lemmas observe_append = pushed_append ends_append errors_append sent_append completed_append
  lookups_append

text \<open>\<^verbatim>\<open>_waitingToEnd\<close> is never reset.\<close>

lemma waiting_url_settled: "waitingToEnd (url_settled k r s) = waitingToEnd s"
  by (cases "(k, r, s)" rule: url_settled.cases) (auto simp: sq_defs)

lemma waiting_dispatch:
  "dispatch t r s = Some s' \<Longrightarrow> waitingToEnd s \<Longrightarrow> waitingToEnd s'"
  apply (cases "(t, r, s)" rule: dispatch.cases)
  apply (auto simp: sq_defs Let_def forEach_push_eq waiting_url_settled
        split: option.splits if_splits prod.splits sum.splits)
  done

lemma waiting_step:
  "step s e = Some s' \<Longrightarrow> waitingToEnd s \<Longrightarrow> waitingToEnd s'"
  apply (cases e)
  apply (auto simp: sq_defs Let_def split: if_splits dest!: step_Run dest: waiting_dispatch)
  done

lemma waiting_run:
  "waitingToEnd s \<Longrightarrow> run s es = Some s' \<Longrightarrow> waitingToEnd s'"
  by (induction es arbitrary: s) (auto split: option.splits dest: waiting_step)


lemma ends_url_settled: "ends (trace (url_settled k r s)) = ends (trace s)"
  by (cases "(k, r, s)" rule: url_settled.cases) (auto simp: sq_defs observe_append)

lemma ends_dispatch:
  "dispatch t r s = Some s' \<Longrightarrow> ends (trace s') \<noteq> ends (trace s) \<Longrightarrow>
   t = DrainTimer \<and> r = Fired \<and> inFlightAcks s \<le> 0 \<and> s' = s\<lparr>trace := trace s @ [PushEnd]\<rparr>"
  apply (cases "(t, r, s)" rule: dispatch.cases)
  apply (auto simp: sq_defs Let_def forEach_push_eq ends_url_settled observe_append observe_map_Push
        split: option.splits if_splits prod.splits sum.splits)
  done

lemma ends_step:
  assumes "step s e = Some s'" and "ends (trace s') \<noteq> ends (trace s)"
  shows "\<exists>i. e = Run i Fired \<and> i < length (tasks s) \<and> tasks s ! i = DrainTimer
           \<and> inFlightAcks s \<le> 0
           \<and> s' = s\<lparr>tasks := remove_nth i (tasks s), trace := trace s @ [PushEnd]\<rparr>"
proof (cases e)
  case (Run i r)
  with assms(1) have i: "i < length (tasks s)"
    and d: "dispatch (tasks s ! i) r (s\<lparr>tasks := remove_nth i (tasks s)\<rparr>) = Some s'"
    using step_Run by blast+
  from ends_dispatch [OF d] assms(2) Run i show ?thesis by simp
qed (use assms in \<open>auto simp: sq_defs Let_def observe_append split: if_splits\<close>)

lemma drain_url_settled:
  "filter drain_task (tasks (url_settled k r s)) = filter drain_task (tasks s)"
  by (cases "(k, r, s)" rule: url_settled.cases) (auto simp: sq_defs)

lemma drain_dispatch:
  "dispatch t r s = Some s' \<Longrightarrow>
   (if waitingToEnd s then outstanding drain_task s + (if drain_task t then 1 else 0) \<le> 1
    else outstanding drain_task s + (if drain_task t then 1 else 0) = 0) \<Longrightarrow>
   drain_single s'"
  apply (cases "(t, r, s)" rule: dispatch.cases)
  apply (auto simp: sq_defs drain_single_def outstanding_def Let_def forEach_push_eq
          drain_url_settled waiting_url_settled
        split: option.splits if_splits prod.splits sum.splits)
  done

lemma drain_step:
  assumes "drain_single s" and "step s e = Some s'"
  shows "drain_single s'"
proof (cases e)
  case (Run i r)
  with assms have i: "i < length (tasks s)"
    and d: "dispatch (tasks s ! i) r (s\<lparr>tasks := remove_nth i (tasks s)\<rparr>) = Some s'"
    using step_Run by blast+
  from assms(1) filter_remove_nth [OF i, of drain_task]
  have "(if waitingToEnd (s\<lparr>tasks := remove_nth i (tasks s)\<rparr>)
         then outstanding drain_task (s\<lparr>tasks := remove_nth i (tasks s)\<rparr>) + (if drain_task (tasks s ! i) then 1 else 0) \<le> 1
         else outstanding drain_task (s\<lparr>tasks := remove_nth i (tasks s)\<rparr>) + (if drain_task (tasks s ! i) then 1 else 0) = 0)"
    by (simp add: drain_single_def outstanding_def split: if_splits)
  with d show ?thesis by (rule drain_dispatch)
qed (use assms in \<open>auto simp: sq_defs drain_single_def outstanding_def Let_def split: if_splits\<close>)

lemma drain_run:
  "drain_single s \<Longrightarrow> run s es = Some s' \<Longrightarrow> drain_single s'"
  by (induction es arbitrary: s) (auto split: option.splits dest: drain_step)

lemma drain_init: "drain_single (SqStream name)"
  by (simp add: drain_single_def outstanding_def SqStream_def)


lemma acks_filter_url_settled:
  "\<not> ack_task (UrlImmediate k) \<Longrightarrow>
   filter ack_task (tasks (url_settled k r s)) = filter ack_task (tasks s)"
  by (cases "(k, r, s)" rule: url_settled.cases) (auto simp: sq_defs)

lemma pushed_url_settled: "pushed (trace (url_settled k r s)) = pushed (trace s)"
  by (cases "(k, r, s)" rule: url_settled.cases) (auto simp: sq_defs observe_append)

lemma ended_dispatch:
  "dispatch t r s = Some s' \<Longrightarrow> ended s \<Longrightarrow> \<not> ack_task t \<Longrightarrow> \<not> drain_task t \<Longrightarrow>
   ended s' \<and> pushed (trace s') = pushed (trace s) \<and> ends (trace s') = ends (trace s)"
  apply (cases "(t, r, s)" rule: dispatch.cases)
  apply (auto simp: sq_defs ended_def outstanding_def Let_def forEach_push_eq ack_task_lookup
          drain_url_settled waiting_url_settled acks_filter_url_settled pushed_url_settled
          ends_url_settled observe_append
        split: option.splits if_splits prod.splits sum.splits)
  done

lemma ended_step:
  assumes "ended s" and "step s e = Some s'"
  shows "ended s' \<and> pushed (trace s') = pushed (trace s) \<and> ends (trace s') = ends (trace s)"
proof (cases e)
  case (Run i r)
  with assms have i: "i < length (tasks s)"
    and d: "dispatch (tasks s ! i) r (s\<lparr>tasks := remove_nth i (tasks s)\<rparr>) = Some s'"
    using step_Run by blast+
  from assms(1) filter_remove_nth [OF i, of ack_task] filter_remove_nth [OF i, of drain_task]
  have "ended (s\<lparr>tasks := remove_nth i (tasks s)\<rparr>)"
    and "\<not> ack_task (tasks s ! i)" and "\<not> drain_task (tasks s ! i)"
    by (auto simp: ended_def outstanding_def split: if_splits)
  with d show ?thesis using ended_dispatch by force
qed (use assms in \<open>auto simp: sq_defs ended_def outstanding_def Let_def observe_append split: if_splits\<close>)

lemma ended_run:
  "ended s \<Longrightarrow> run s es = Some s' \<Longrightarrow>
   ended s' \<and> pushed (trace s') = pushed (trace s) \<and> ends (trace s') = ends (trace s)"
proof (induction es arbitrary: s)
  case Nil
  then show ?case by simp
next
  case (Cons e es)
  then obtain s1 where s1: "step s e = Some s1" and r: "run s1 es = Some s'"
    by (auto split: option.splits)
  from ended_step [OF Cons.prems(1) s1] Cons.IH [OF _ r] show ?case by simp
qed

lemma late_poll_discarded:
  assumes "waitingToEnd s" and "step s (Run i (ReceiveReply r)) = Some s'"
  shows "trace s' = trace s \<and> inFlightAcks s' = inFlightAcks s"
proof -
  from assms(2) have i: "i < length (tasks s)"
    and d: "dispatch (tasks s ! i) (ReceiveReply r) (s\<lparr>tasks := remove_nth i (tasks s)\<rparr>) = Some s'"
    using step_Run by blast+
  from d assms(1) show ?thesis
    by (cases "tasks s ! i"; cases r) (auto simp: sq_defs)
qed


subsection \<open>Draining\<close>

text \<open>
  C2. Once draining has begun (\<^verbatim>\<open>_waitingToEnd\<close> is set), the flag stays set, and the
  result of any poll that arrives afterwards, whatever it holds, is discarded: the step
  that handles it makes no call at all (no push, no delete request) and leaves the
  counter alone. And in every state the object can reach from its constructor, a step
  that signals the end of the stream (\<^verbatim>\<open>push(null)\<close>) is taken with \<^verbatim>\<open>_inFlightAcks\<close>
  equal to zero and with no acknowledgment under way.
\<close>

theorem drain_correct:
  "(waitingToEnd s \<and> run s es = Some s1 \<and> step s1 (Run i (ReceiveReply r)) = Some s2
      \<longrightarrow> trace s2 = trace s1 \<and> inFlightAcks s2 = inFlightAcks s1)
   \<and> (run (SqStream name) es' = Some t \<and> step t e = Some t' \<and> ends (trace t') \<noteq> ends (trace t)
      \<longrightarrow> inFlightAcks t = 0 \<and> outstanding ack_task t = 0)"
proof (intro conjI impI)
  assume a: "waitingToEnd s \<and> run s es = Some s1 \<and> step s1 (Run i (ReceiveReply r)) = Some s2"
  then have "waitingToEnd s1" using waiting_run by blast
  with a show "trace s2 = trace s1" and "inFlightAcks s2 = inFlightAcks s1"
    using late_poll_discarded by blast+
next
  assume b: "run (SqStream name) es' = Some t \<and> step t e = Some t' \<and> ends (trace t') \<noteq> ends (trace t)"
  then have c: "acks_counted t" using acks_run acks_init by blast
  from b ends_step have "inFlightAcks t \<le> 0" by blast
  with c show "inFlightAcks t = 0" and "outstanding ack_task t = 0"
    by (simp_all add: acks_counted_def)
qed

theorem drain_correct_witness:
  "(waitingToEnd ((SqStream ''q'')\<lparr>waitingToEnd := True, tasks := [DrainTimer, Receive]\<rparr>)
    \<and> run ((SqStream ''q'')\<lparr>waitingToEnd := True, tasks := [DrainTimer, Receive]\<rparr>) [] =
        Some ((SqStream ''q'')\<lparr>waitingToEnd := True, tasks := [DrainTimer, Receive]\<rparr>)
    \<and> step ((SqStream ''q'')\<lparr>waitingToEnd := True, tasks := [DrainTimer, Receive]\<rparr>)
         (Run 1 (ReceiveReply (Inr (Some [\<lparr>MessageId = ''a'', ReceiptHandle = ''h'', Body = ''x''\<rparr>])))) =
        Some ((SqStream ''q'')\<lparr>waitingToEnd := True, tasks := [DrainTimer, ResolveFalse]\<rparr>)
    \<and> trace ((SqStream ''q'')\<lparr>waitingToEnd := True, tasks := [DrainTimer, ResolveFalse]\<rparr>) = [])
   \<and> (run (SqStream ''q'')
         [Read, Run 0 Fired, Run 0 (UrlReply (Inr ''u'')), Run 0 (ReceiveReply (Inr None))] =
        Some ((SqStream ''q'')\<lparr>queueUrl := Some ''u'', waitingToEnd := True, tasks := [DrainTimer],
                trace := [GetQueueUrl ''q'', ReceiveMessage ''u'' 10 30]\<rparr>)
    \<and> step ((SqStream ''q'')\<lparr>queueUrl := Some ''u'', waitingToEnd := True, tasks := [DrainTimer],
                trace := [GetQueueUrl ''q'', ReceiveMessage ''u'' 10 30]\<rparr>) (Run 0 Fired) =
        Some ((SqStream ''q'')\<lparr>queueUrl := Some ''u'', waitingToEnd := True, tasks := [],
                trace := [GetQueueUrl ''q'', ReceiveMessage ''u'' 10 30, PushEnd]\<rparr>)
    \<and> inFlightAcks ((SqStream ''q'')\<lparr>queueUrl := Some ''u'', waitingToEnd := True, tasks := [DrainTimer],
                trace := [GetQueueUrl ''q'', ReceiveMessage ''u'' 10 30]\<rparr>) = 0)"
  using drain_correct [of "(SqStream ''q'')\<lparr>waitingToEnd := True, tasks := [DrainTimer, Receive]\<rparr>" "[]"
      "(SqStream ''q'')\<lparr>waitingToEnd := True, tasks := [DrainTimer, Receive]\<rparr>" 1
      "Inr (Some [\<lparr>MessageId = ''a'', ReceiptHandle = ''h'', Body = ''x''\<rparr>])"
      "(SqStream ''q'')\<lparr>waitingToEnd := True, tasks := [DrainTimer, ResolveFalse]\<rparr>"
      "''q''" "[Read, Run 0 Fired, Run 0 (UrlReply (Inr ''u'')), Run 0 (ReceiveReply (Inr None))]"
      "(SqStream ''q'')\<lparr>queueUrl := Some ''u'', waitingToEnd := True, tasks := [DrainTimer],
                trace := [GetQueueUrl ''q'', ReceiveMessage ''u'' 10 30]\<rparr>"
      "Run 0 Fired"
      "(SqStream ''q'')\<lparr>queueUrl := Some ''u'', waitingToEnd := True, tasks := [],
                trace := [GetQueueUrl ''q'', ReceiveMessage ''u'' 10 30, PushEnd]\<rparr>"]
  by (simp add: sq_defs SqStream_def remove_nth_def)

subsection \<open>The no-more-messages signal\<close>

lemma end_signal_final:
  assumes "acks_counted t" and "drain_single t" and "step t e = Some t'"
    and "ends (trace t') \<noteq> ends (trace t)"
  shows "ended t'"
proof -
  from ends_step [OF assms(3,4)] obtain i where
    i: "i < length (tasks t)" and d: "tasks t ! i = DrainTimer" and c: "inFlightAcks t \<le> 0"
    and t': "t' = t\<lparr>tasks := remove_nth i (tasks t), trace := trace t @ [PushEnd]\<rparr>"
    by blast
  from filter_remove_nth [OF i, of drain_task] d assms(2)
  have "waitingToEnd t" and "length (filter drain_task (remove_nth i (tasks t))) = 0"
    by (auto simp: drain_single_def outstanding_def split: if_splits)
  moreover from filter_remove_nth [OF i, of ack_task] d assms(1) c
  have "length (filter ack_task (remove_nth i (tasks t))) = 0"
    by (simp add: acks_counted_def outstanding_def)
  ultimately show ?thesis
    by (simp add: t' ended_def outstanding_def)
qed

text \<open>
  C6, as the code has it. The signal is a reply of \<^verbatim>\<open>receiveMessage\<close> without a
  \<^verbatim>\<open>Messages\<close> field: while the stream is not yet waiting to end, such a reply sets
  \<^verbatim>\<open>_waitingToEnd\<close> and arms the drain interval. An empty list is not the signal: it
  is handled as a batch (the counter goes up, \<open>deleteMessages\<close> is called on it) and
  the stream stays active. A tick of the drain interval does nothing but stay armed
  while \<^verbatim>\<open>_inFlightAcks\<close> is above zero; otherwise it clears the interval and signals the
  end of the stream. From then on, in every run that starts at the constructor, the flag
  stays set, no drain timer exists, no message is pushed and the end is not signalled a
  second time.
\<close>

theorem drain_on_absent_messages:
  "(i < length (tasks s) \<and> tasks s ! i = Receive \<and> \<not> waitingToEnd s \<longrightarrow>
      step s (Run i (ReceiveReply (Inr None))) =
        Some (s\<lparr>tasks := remove_nth i (tasks s) @ [DrainTimer], waitingToEnd := True\<rparr>)
    \<and> step s (Run i (ReceiveReply (Inr (Some [])))) =
        Some (s\<lparr>tasks := remove_nth i (tasks s) @ [DeleteImmediate []],
                inFlightAcks := inFlightAcks s + 1\<rparr>))
   \<and> (j < length (tasks d) \<and> tasks d ! j = DrainTimer \<longrightarrow>
      step d (Run j Fired) =
        Some (if inFlightAcks d > 0 then d\<lparr>tasks := remove_nth j (tasks d) @ [DrainTimer]\<rparr>
              else d\<lparr>tasks := remove_nth j (tasks d), trace := trace d @ [PushEnd]\<rparr>))
   \<and> (run (SqStream name) es = Some t \<and> step t e = Some t' \<and> ends (trace t') \<noteq> ends (trace t)
        \<and> run t' es' = Some t'' \<longrightarrow>
      waitingToEnd t'' \<and> outstanding drain_task t'' = 0
      \<and> pushed (trace t'') = pushed (trace t') \<and> ends (trace t'') = ends (trace t'))"
proof (intro conjI impI)
  assume a: "run (SqStream name) es = Some t \<and> step t e = Some t' \<and> ends (trace t') \<noteq> ends (trace t)
        \<and> run t' es' = Some t''"
  then have "acks_counted t" and "drain_single t"
    using acks_run acks_init drain_run drain_init by blast+
  with a have "ended t'" using end_signal_final by blast
  with a have "ended t'' \<and> pushed (trace t'') = pushed (trace t') \<and> ends (trace t'') = ends (trace t')"
    using ended_run by blast
  then show "waitingToEnd t''" and "outstanding drain_task t'' = 0"
    and "pushed (trace t'') = pushed (trace t')" and "ends (trace t'') = ends (trace t')"
    by (simp_all add: ended_def)
qed (simp_all add: sq_defs)

theorem drain_on_absent_messages_witness:
  "(0 < length (tasks ((SqStream ''q'')\<lparr>tasks := [Receive]\<rparr>))
      \<and> tasks ((SqStream ''q'')\<lparr>tasks := [Receive]\<rparr>) ! 0 = Receive
      \<and> \<not> waitingToEnd ((SqStream ''q'')\<lparr>tasks := [Receive]\<rparr>)
      \<and> step ((SqStream ''q'')\<lparr>tasks := [Receive]\<rparr>) (Run 0 (ReceiveReply (Inr None))) =
          Some ((SqStream ''q'')\<lparr>tasks := [DrainTimer], waitingToEnd := True\<rparr>))
   \<and> (0 < length (tasks ((SqStream ''q'')\<lparr>tasks := [DrainTimer], waitingToEnd := True, inFlightAcks := 1\<rparr>))
      \<and> tasks ((SqStream ''q'')\<lparr>tasks := [DrainTimer], waitingToEnd := True, inFlightAcks := 1\<rparr>) ! 0 = DrainTimer
      \<and> step ((SqStream ''q'')\<lparr>tasks := [DrainTimer], waitingToEnd := True, inFlightAcks := 1\<rparr>) (Run 0 Fired) =
          Some ((SqStream ''q'')\<lparr>tasks := [DrainTimer], waitingToEnd := True, inFlightAcks := 1\<rparr>))
   \<and> (run (SqStream ''q'')
         [Read, Run 0 Fired, Run 0 (UrlReply (Inr ''u'')), Run 0 (ReceiveReply (Inr None))] =
        Some ((SqStream ''q'')\<lparr>queueUrl := Some ''u'', waitingToEnd := True, tasks := [DrainTimer],
                trace := [GetQueueUrl ''q'', ReceiveMessage ''u'' 10 30]\<rparr>)
      \<and> step ((SqStream ''q'')\<lparr>queueUrl := Some ''u'', waitingToEnd := True, tasks := [DrainTimer],
                trace := [GetQueueUrl ''q'', ReceiveMessage ''u'' 10 30]\<rparr>) (Run 0 Fired) =
        Some ((SqStream ''q'')\<lparr>queueUrl := Some ''u'', waitingToEnd := True, tasks := [],
                trace := [GetQueueUrl ''q'', ReceiveMessage ''u'' 10 30, PushEnd]\<rparr>)
      \<and> run ((SqStream ''q'')\<lparr>queueUrl := Some ''u'', waitingToEnd := True, tasks := [],
                trace := [GetQueueUrl ''q'', ReceiveMessage ''u'' 10 30, PushEnd]\<rparr>)
           [Read, Run 0 Fired,
            Run 0 (ReceiveReply (Inr (Some [\<lparr>MessageId = ''a'', ReceiptHandle = ''h'', Body = ''x''\<rparr>])))] =
        Some ((SqStream ''q'')\<lparr>queueUrl := Some ''u'', waitingToEnd := True, tasks := [ResolveFalse],
                trace := [GetQueueUrl ''q'', ReceiveMessage ''u'' 10 30, PushEnd,
                          ReceiveMessage ''u'' 10 30]\<rparr>)
      \<and> pushed [GetQueueUrl ''q'', ReceiveMessage ''u'' 10 30, PushEnd, ReceiveMessage ''u'' 10 30] = []
      \<and> ends [GetQueueUrl ''q'', ReceiveMessage ''u'' 10 30, PushEnd, ReceiveMessage ''u'' 10 30] = 1)"
  using drain_on_absent_messages [of 0 "(SqStream ''q'')\<lparr>tasks := [Receive]\<rparr>"
      0 "(SqStream ''q'')\<lparr>tasks := [DrainTimer], waitingToEnd := True, inFlightAcks := 1\<rparr>"
      "''q''" "[Read, Run 0 Fired, Run 0 (UrlReply (Inr ''u'')), Run 0 (ReceiveReply (Inr None))]"
      "(SqStream ''q'')\<lparr>queueUrl := Some ''u'', waitingToEnd := True, tasks := [DrainTimer],
                trace := [GetQueueUrl ''q'', ReceiveMessage ''u'' 10 30]\<rparr>"
      "Run 0 Fired"
      "(SqStream ''q'')\<lparr>queueUrl := Some ''u'', waitingToEnd := True, tasks := [],
                trace := [GetQueueUrl ''q'', ReceiveMessage ''u'' 10 30, PushEnd]\<rparr>"
      "[Read, Run 0 Fired,
            Run 0 (ReceiveReply (Inr (Some [\<lparr>MessageId = ''a'', ReceiptHandle = ''h'', Body = ''x''\<rparr>])))]"
      "(SqStream ''q'')\<lparr>queueUrl := Some ''u'', waitingToEnd := True, tasks := [ResolveFalse],
                trace := [GetQueueUrl ''q'', ReceiveMessage ''u'' 10 30, PushEnd,
                          ReceiveMessage ''u'' 10 30]\<rparr>"]
  by (simp add: sq_defs SqStream_def remove_nth_def)

text \<open>
  C6 as it is written fails for an empty list. \<^verbatim>\<open>receiveMessage\<close> returns an empty list
  to a new stream: \<open>handleMessages\<close> takes the batch branch, \<open>deleteMessages\<close> resolves
  at once, and the run ends with \<^verbatim>\<open>_waitingToEnd\<close> still false, no drain timer armed and
  the end of the stream not signalled.
\<close>

theorem empty_list_does_not_drain:
  "run (SqStream ''q'')
     [Read, Run 0 Fired, Run 0 (UrlReply (Inr ''u'')), Run 0 (ReceiveReply (Inr (Some []))), Run 0 Fired] =
   Some ((SqStream ''q'')\<lparr>queueUrl := Some ''u'',
           trace := [GetQueueUrl ''q'', ReceiveMessage ''u'' 10 30]\<rparr>)
   \<and> \<not> waitingToEnd ((SqStream ''q'')\<lparr>queueUrl := Some ''u'',
           trace := [GetQueueUrl ''q'', ReceiveMessage ''u'' 10 30]\<rparr>)
   \<and> tasks ((SqStream ''q'')\<lparr>queueUrl := Some ''u'',
           trace := [GetQueueUrl ''q'', ReceiveMessage ''u'' 10 30]\<rparr>) = []
   \<and> ends [GetQueueUrl ''q'', ReceiveMessage ''u'' 10 30] = 0"
  by (simp add: sq_defs SqStream_def remove_nth_def forEach_push_eq)

subsection \<open>The flush at the end of input\<close>

lemma run_append:
  "run s (es @ es') = (case run s es of None \<Rightarrow> None | Some s' \<Rightarrow> run s' es')"
  by (induction es arbitrary: s) (auto split: option.splits)

lemma reduce_entries_eq:
  "reduce_entries memo idx ms =
   memo @ map (\<lambda>(j, m). SendEntry (toString j) m) (enumerate idx ms)"
  by (induction ms arbitrary: memo idx) auto

lemma candidate_size: "(if m \<noteq> [] then length m else 0) = length (m::string)"
  by simp

lemma toString_digits:
  "toString 0 = ''0''" "toString (Suc 0) = ''1''" "toString (Suc (Suc 0)) = ''2''"
  by (simp_all add: toString.simps digit_def)

lemma sq_write_admitted:
  assumes "readyForWrite (Some (normalize c)) s"
    and "readyForWrite None (s\<lparr>trace := trace s @ [WriteCallback cb], pendingWrites := pendingWrites s @ [normalize c]\<rparr>)" 
  shows "sq_write c cb s =
    s\<lparr>trace := trace s @ [WriteCallback cb], pendingWrites := pendingWrites s @ [normalize c]\<rparr>"
  using assms by (simp add: sq_write_def queueWrite_def call_def Let_def)

lemma three_writes:
  assumes "2 * (length a + length b + length c) < 262144"
  shows "run (SqStream name) [Write (Text a) 0, Write (Text b) 1, Write (Text c) 2] =
     Some ((SqStream name)\<lparr>pendingWrites := [a, b, c],
             trace := [WriteCallback 0, WriteCallback 1, WriteCallback 2]\<rparr>)"
  using assms
  by (simp add: sq_write_admitted readyForWrite_def byteLength_def truthy_def SqStream_def candidate_size)

lemma flush_three:
  "run ((SqStream name)\<lparr>pendingWrites := [a, b, c],
             trace := [WriteCallback 0, WriteCallback 1, WriteCallback 2]\<rparr>)
     [Prefinish, Run 0 Fired, Run 0 (UrlReply (Inr u))] =
   Some ((SqStream name)\<lparr>queueUrl := Some u, sendingMessages := True, tasks := [SendBatch],
                trace := [WriteCallback 0, WriteCallback 1, WriteCallback 2, GetQueueUrl name,
                          SendMessageBatch u
                            [SendEntry ''0'' a, SendEntry ''1'' b, SendEntry ''2'' c]]\<rparr>)"
  by (simp add: sq_defs SqStream_def remove_nth_def toString_digits)

lemma prefinish_flush:
  "pendingWrites s \<noteq> [] \<Longrightarrow>
      step s Prefinish =
        Some (s\<lparr>sendingMessages := True, pendingWrites := [],
                tasks := tasks s @ [UrlImmediate (ForSend
                  (map (\<lambda>(j, m). SendEntry (toString j) m) (enumerate 0 (pendingWrites s))))]\<rparr>)"
  by (simp add: processWrites_def getUrl_def schedule_def reduce_entries_eq)

lemma flush_url_cached:
  "i < length (tasks t) \<Longrightarrow> tasks t ! i = UrlImmediate (ForSend entries) \<Longrightarrow>
   getUrl_cached t = Some url \<Longrightarrow>
      step t (Run i Fired) =
        Some (t\<lparr>tasks := remove_nth i (tasks t) @ [SendBatch],
                trace := trace t @ [SendMessageBatch url entries]\<rparr>)"
  by (simp add: getUrl_immediate_def getUrl_cached_def schedule_def call_def)

lemma flush_url_looked_up:
  "j < length (tasks l) \<Longrightarrow> tasks l ! j = UrlLookup (ForSend entries') \<Longrightarrow>
      step l (Run j (UrlReply (Inr url'))) =
        Some (l\<lparr>queueUrl := Some url', tasks := remove_nth j (tasks l) @ [SendBatch],
                trace := trace l @ [SendMessageBatch url' entries']\<rparr>)"
  by (simp add: getUrl_callback_def getUrl_lookup_done_def schedule_def call_def)


text \<open>
  C7, as the code has it. When \<^verbatim>\<open>prefinish\<close> is emitted with a buffer that is not empty,
  \<open>processWrites\<close> starts one flush: it sets the busy flag, empties the buffer and asks
  for the address with all the buffered payloads as entries, the entry at position
  \<open>j\<close> carrying the id \<open>toString j\<close>, counted from 0. With an empty buffer
  \<open>processWrites\<close> returns at once and no flush is started. Once the address is there,
  from the cache or from a lookup that succeeds, \<^verbatim>\<open>sendMessageBatch\<close> is called once with
  these entries. In particular, three string payloads written to a new stream, then
  \<^verbatim>\<open>prefinish\<close> and a lookup that succeeds, give one \<^verbatim>\<open>sendMessageBatch\<close> call with three
  entries whose ids are 0, 1 and 2.
\<close>

theorem end_of_input_flush:
  "(pendingWrites s \<noteq> [] \<longrightarrow>
      step s Prefinish =
        Some (s\<lparr>sendingMessages := True, pendingWrites := [],
                tasks := tasks s @ [UrlImmediate (ForSend
                  (map (\<lambda>(j, m). SendEntry (toString j) m) (enumerate 0 (pendingWrites s))))]\<rparr>))
   \<and> (pendingWrites s0 = [] \<longrightarrow> step s0 Prefinish = Some s0)
   \<and> (i < length (tasks t) \<and> tasks t ! i = UrlImmediate (ForSend entries)
        \<and> getUrl_cached t = Some url \<longrightarrow>
      step t (Run i Fired) =
        Some (t\<lparr>tasks := remove_nth i (tasks t) @ [SendBatch],
                trace := trace t @ [SendMessageBatch url entries]\<rparr>))
   \<and> (j < length (tasks l) \<and> tasks l ! j = UrlLookup (ForSend entries') \<longrightarrow>
      step l (Run j (UrlReply (Inr url'))) =
        Some (l\<lparr>queueUrl := Some url', tasks := remove_nth j (tasks l) @ [SendBatch],
                trace := trace l @ [SendMessageBatch url' entries']\<rparr>))
   \<and> (2 * (length a + length b + length c) < 262144 \<longrightarrow>
      run (SqStream name)
        [Write (Text a) 0, Write (Text b) 1, Write (Text c) 2, Prefinish,
         Run 0 Fired, Run 0 (UrlReply (Inr u))] =
        Some ((SqStream name)\<lparr>queueUrl := Some u, sendingMessages := True, tasks := [SendBatch],
                trace := [WriteCallback 0, WriteCallback 1, WriteCallback 2, GetQueueUrl name,
                          SendMessageBatch u
                            [SendEntry ''0'' a, SendEntry ''1'' b, SendEntry ''2'' c]]\<rparr>))"
proof (intro conjI impI)
  assume "pendingWrites s \<noteq> []"
  then show "step s Prefinish =
        Some (s\<lparr>sendingMessages := True, pendingWrites := [],
                tasks := tasks s @ [UrlImmediate (ForSend
                  (map (\<lambda>(j, m). SendEntry (toString j) m) (enumerate 0 (pendingWrites s))))]\<rparr>)"
    by (rule prefinish_flush)
next
  assume "pendingWrites s0 = []"
  then show "step s0 Prefinish = Some s0"
    by (simp add: processWrites_def)
next
  assume "i < length (tasks t) \<and> tasks t ! i = UrlImmediate (ForSend entries)
        \<and> getUrl_cached t = Some url"
  then show "step t (Run i Fired) =
        Some (t\<lparr>tasks := remove_nth i (tasks t) @ [SendBatch],
                trace := trace t @ [SendMessageBatch url entries]\<rparr>)"
    using flush_url_cached by blast
next
  assume "j < length (tasks l) \<and> tasks l ! j = UrlLookup (ForSend entries')"
  then show "step l (Run j (UrlReply (Inr url'))) =
        Some (l\<lparr>queueUrl := Some url', tasks := remove_nth j (tasks l) @ [SendBatch],
                trace := trace l @ [SendMessageBatch url' entries']\<rparr>)"
    using flush_url_looked_up by blast
next
  assume "2 * (length a + length b + length c) < 262144"
  from three_writes [OF this, where name = name] flush_three [where name = name and a = a and b = b and c = c and u = u]
    run_append [of "SqStream name" "[Write (Text a) 0, Write (Text b) 1, Write (Text c) 2]"
                   "[Prefinish, Run 0 Fired, Run 0 (UrlReply (Inr u))]"]
  show "run (SqStream name)
        [Write (Text a) 0, Write (Text b) 1, Write (Text c) 2, Prefinish,
         Run 0 Fired, Run 0 (UrlReply (Inr u))] =
        Some ((SqStream name)\<lparr>queueUrl := Some u, sendingMessages := True, tasks := [SendBatch],
                trace := [WriteCallback 0, WriteCallback 1, WriteCallback 2, GetQueueUrl name,
                          SendMessageBatch u
                            [SendEntry ''0'' a, SendEntry ''1'' b, SendEntry ''2'' c]]\<rparr>)"
    by (simp del: run.simps)
qed

theorem end_of_input_flush_witness:
  "(pendingWrites ((SqStream ''q'')\<lparr>pendingWrites := [''x'', ''y'']\<rparr>) \<noteq> []
      \<and> step ((SqStream ''q'')\<lparr>pendingWrites := [''x'', ''y'']\<rparr>) Prefinish =
          Some ((SqStream ''q'')\<lparr>sendingMessages := True,
                  tasks := [UrlImmediate (ForSend [SendEntry ''0'' ''x'', SendEntry ''1'' ''y''])]\<rparr>))
   \<and> (pendingWrites (SqStream ''q'') = [] \<and> step (SqStream ''q'') Prefinish = Some (SqStream ''q''))
   \<and> (0 < length (tasks ((SqStream ''q'')\<lparr>queueUrl := Some ''u'', sendingMessages := True,
                  tasks := [UrlImmediate (ForSend [SendEntry ''0'' ''x'', SendEntry ''1'' ''y''])]\<rparr>))
      \<and> getUrl_cached ((SqStream ''q'')\<lparr>queueUrl := Some ''u'', sendingMessages := True,
                  tasks := [UrlImmediate (ForSend [SendEntry ''0'' ''x'', SendEntry ''1'' ''y''])]\<rparr>) = Some ''u''
      \<and> step ((SqStream ''q'')\<lparr>queueUrl := Some ''u'', sendingMessages := True,
                  tasks := [UrlImmediate (ForSend [SendEntry ''0'' ''x'', SendEntry ''1'' ''y''])]\<rparr>) (Run 0 Fired) =
          Some ((SqStream ''q'')\<lparr>queueUrl := Some ''u'', sendingMessages := True, tasks := [SendBatch],
                  trace := [SendMessageBatch ''u'' [SendEntry ''0'' ''x'', SendEntry ''1'' ''y'']]\<rparr>))
   \<and> (0 < length (tasks ((SqStream ''q'')\<lparr>sendingMessages := True,
                  tasks := [UrlLookup (ForSend [SendEntry ''0'' ''x'', SendEntry ''1'' ''y''])]\<rparr>))
      \<and> step ((SqStream ''q'')\<lparr>sendingMessages := True,
                  tasks := [UrlLookup (ForSend [SendEntry ''0'' ''x'', SendEntry ''1'' ''y''])]\<rparr>)
            (Run 0 (UrlReply (Inr ''u''))) =
          Some ((SqStream ''q'')\<lparr>queueUrl := Some ''u'', sendingMessages := True, tasks := [SendBatch],
                  trace := [SendMessageBatch ''u'' [SendEntry ''0'' ''x'', SendEntry ''1'' ''y'']]\<rparr>))
   \<and> (2 * (length ''one'' + length ''two'' + length ''three'') < (262144::nat)
      \<and> run (SqStream ''q'')
        [Write (Text ''one'') 0, Write (Text ''two'') 1, Write (Text ''three'') 2, Prefinish,
         Run 0 Fired, Run 0 (UrlReply (Inr ''u''))] =
        Some ((SqStream ''q'')\<lparr>queueUrl := Some ''u'', sendingMessages := True, tasks := [SendBatch],
                trace := [WriteCallback 0, WriteCallback 1, WriteCallback 2, GetQueueUrl ''q'',
                          SendMessageBatch ''u''
                            [SendEntry ''0'' ''one'', SendEntry ''1'' ''two'', SendEntry ''2'' ''three'']]\<rparr>))"
  using end_of_input_flush [where s = "(SqStream ''q'')\<lparr>pendingWrites := [''x'', ''y'']\<rparr>"
      and ?s0.0 = "SqStream ''q''" and i = 0
      and t = "(SqStream ''q'')\<lparr>queueUrl := Some ''u'', sendingMessages := True,
                  tasks := [UrlImmediate (ForSend [SendEntry ''0'' ''x'', SendEntry ''1'' ''y''])]\<rparr>"
      and entries = "[SendEntry ''0'' ''x'', SendEntry ''1'' ''y'']" and url = "''u''"
      and j = 0
      and l = "(SqStream ''q'')\<lparr>sendingMessages := True,
                  tasks := [UrlLookup (ForSend [SendEntry ''0'' ''x'', SendEntry ''1'' ''y''])]\<rparr>"
      and entries' = "[SendEntry ''0'' ''x'', SendEntry ''1'' ''y'']" and url' = "''u''"
      and a = "''one''" and b = "''two''" and c = "''three''" and name = "''q''" and u = "''u''"]
  by (simp add: SqStream_def remove_nth_def getUrl_cached_def truthy_def enumerate_eq_zip toString_digits
        del: step.simps run.simps)

text \<open>
  C7 as it is written fails for an empty buffer (M = 0): \<^verbatim>\<open>prefinish\<close> on a new stream
  leaves the object as it is; no flush is started and nothing is sent.
\<close>

theorem close_with_empty_buffer:
  "length (pendingWrites (SqStream ''q'')) < 10
   \<and> run (SqStream ''q'') [Prefinish] = Some (SqStream ''q'')
   \<and> tasks (SqStream ''q'') = [] \<and> \<not> sendingMessages (SqStream ''q'')
   \<and> sent (trace (SqStream ''q'')) = []"
  by (simp add: sq_defs SqStream_def)

subsection \<open>Delivery of a batch\<close>

lemma length_remove_nth: "i < length xs \<Longrightarrow> length (remove_nth i xs) = length xs - 1"
  by (simp add: remove_nth_def)

lemma step_last_task:
  "tasks s = ts @ [x] \<Longrightarrow> length ts = n \<Longrightarrow>
   step s (Run n r) = dispatch x r (s\<lparr>tasks := ts\<rparr>)"
  by (auto simp: remove_nth_def)

lemma pushed_dispatch:
  "dispatch t r s = Some s' \<Longrightarrow>
   pushed (trace s') =
   pushed (trace s) @ (case (t, r) of (DeleteBatch msgs, DeleteReply None) \<Rightarrow> msgs | _ \<Rightarrow> [])"
  apply (cases "(t, r, s)" rule: dispatch.cases)
  apply (auto simp: sq_defs observe_append pushed_url_settled Let_def forEach_push_eq pushed_map_Push
        split: option.splits if_splits prod.splits sum.splits)
  done

lemma pushed_step:
  assumes "step s e = Some s'"
  shows "pushed (trace s') = pushed (trace s) @ delivered s e"
proof (cases e)
  case (Run i r)
  with assms have i: "i < length (tasks s)"
    and d: "dispatch (tasks s ! i) r (s\<lparr>tasks := remove_nth i (tasks s)\<rparr>) = Some s'"
    using step_Run by blast+
  from pushed_dispatch [OF d] i Run show ?thesis
    by (cases "(s, e)" rule: delivered.cases) (auto split: task.splits reply.splits option.splits)
qed (use assms in \<open>auto simp: sq_defs Let_def observe_append split: if_splits\<close>)

lemma batch_lifecycle:
  assumes i: "i < length (tasks t)" and rcv: "tasks t ! i = Receive" and act: "\<not> waitingToEnd t"
    and ne: "msgs \<noteq> []" and url: "getUrl_cached t = Some url"
  shows "run t [Run i (ReceiveReply (Inr (Some msgs))),
               Run (length (tasks t) - 1) Fired,
               Run (length (tasks t) - 1) Fired,
               Run (length (tasks t) - 1) (DeleteReply r)] =
         Some (t\<lparr>tasks := remove_nth i (tasks t),
                 trace := trace t @
                   DeleteMessageBatch (map (\<lambda>m. DeleteEntry (MessageId m) (ReceiptHandle m)) msgs) url
                   # (case r of None \<Rightarrow> map Push msgs | Some err \<Rightarrow> [])\<rparr>)"
proof -
  let ?rest = "remove_nth i (tasks t)"
  let ?n = "length (tasks t) - 1"
  let ?entries = "map (\<lambda>m. DeleteEntry (MessageId m) (ReceiptHandle m)) msgs"
  have n: "length ?rest = ?n" using i by (rule length_remove_nth)
  let ?s1 = "t\<lparr>tasks := ?rest @ [DeleteImmediate msgs], inFlightAcks := inFlightAcks t + 1\<rparr>"
  let ?s2 = "t\<lparr>tasks := ?rest @ [UrlImmediate (ForDelete ?entries msgs)], inFlightAcks := inFlightAcks t + 1\<rparr>"
  let ?s3 = "t\<lparr>tasks := ?rest @ [DeleteBatch msgs], inFlightAcks := inFlightAcks t + 1,
               trace := trace t @ [DeleteMessageBatch ?entries url]\<rparr>"
  have 1: "step t (Run i (ReceiveReply (Inr (Some msgs)))) = Some ?s1"
    using i rcv act by (simp add: handleMessages_def deleteMessages_def schedule_def)
  have 2: "step ?s1 (Run ?n Fired) = Some ?s2"
    using step_last_task [of ?s1 ?rest "DeleteImmediate msgs" ?n Fired] n ne
    by (simp add: deleteMessages_immediate_def getUrl_def schedule_def del: step.simps)
  have 3: "step ?s2 (Run ?n Fired) = Some ?s3"
    using step_last_task [of ?s2 ?rest "UrlImmediate (ForDelete ?entries msgs)" ?n Fired] n url
    by (simp add: getUrl_immediate_def getUrl_cached_def schedule_def call_def del: step.simps)
  have 4: "step ?s3 (Run ?n (DeleteReply r)) =
         Some (t\<lparr>tasks := remove_nth i (tasks t),
                 trace := trace t @ DeleteMessageBatch ?entries url
                   # (case r of None \<Rightarrow> map Push msgs | Some err \<Rightarrow> [])\<rparr>)"
    using step_last_task [of ?s3 ?rest "DeleteBatch msgs" ?n "DeleteReply r"] n
    by (cases r) (simp_all add: delete_settled_def forEach_push_eq del: step.simps)
  show ?thesis
    by (simp only: run.simps 1 2 3 4 option.case)
qed


text \<open>
  C3. At every step of the object, the messages pushed to the reader grow by exactly
  \<open>delivered\<close>: by the messages of a batch, in the order of the batch, at the step
  where \<^verbatim>\<open>deleteMessageBatch\<close> for that batch calls back without an error, and by
  nothing at any other step. And a non-empty batch that \<^verbatim>\<open>receiveMessage\<close> returns
  while the stream is not waiting to end goes, with the address in the cache, through
  \<open>handleMessages\<close> and \<open>deleteMessages\<close> to one \<^verbatim>\<open>deleteMessageBatch\<close> request for
  its entries; when that request succeeds every message of the batch is pushed, in the
  order the service returned them, and when it fails none is. The counter is back at
  its old value afterwards.
\<close>

theorem read_delivery:
  "(step s e = Some s' \<longrightarrow> pushed (trace s') = pushed (trace s) @ delivered s e)
   \<and> (i < length (tasks t) \<and> tasks t ! i = Receive \<and> \<not> waitingToEnd t \<and> msgs \<noteq> []
        \<and> getUrl_cached t = Some url \<longrightarrow>
      run t [Run i (ReceiveReply (Inr (Some msgs))),
             Run (length (tasks t) - 1) Fired,
             Run (length (tasks t) - 1) Fired,
             Run (length (tasks t) - 1) (DeleteReply r)] =
        Some (t\<lparr>tasks := remove_nth i (tasks t),
                trace := trace t @
                  DeleteMessageBatch (map (\<lambda>m. DeleteEntry (MessageId m) (ReceiptHandle m)) msgs) url
                  # (case r of None \<Rightarrow> map Push msgs | Some err \<Rightarrow> [])\<rparr>))"
  using pushed_step batch_lifecycle by blast

theorem read_delivery_witness:
  "(step ((SqStream ''q'')\<lparr>inFlightAcks := 1,
            tasks := [DeleteBatch [\<lparr>MessageId = ''a'', ReceiptHandle = ''h'', Body = ''x''\<rparr>,
                                   \<lparr>MessageId = ''b'', ReceiptHandle = ''k'', Body = ''y''\<rparr>]]\<rparr>)
         (Run 0 (DeleteReply None)) =
       Some ((SqStream ''q'')\<lparr>trace := [Push \<lparr>MessageId = ''a'', ReceiptHandle = ''h'', Body = ''x''\<rparr>,
                                          Push \<lparr>MessageId = ''b'', ReceiptHandle = ''k'', Body = ''y''\<rparr>]\<rparr>)
     \<and> pushed [Push \<lparr>MessageId = ''a'', ReceiptHandle = ''h'', Body = ''x''\<rparr>,
                Push \<lparr>MessageId = ''b'', ReceiptHandle = ''k'', Body = ''y''\<rparr>] =
         [\<lparr>MessageId = ''a'', ReceiptHandle = ''h'', Body = ''x''\<rparr>,
          \<lparr>MessageId = ''b'', ReceiptHandle = ''k'', Body = ''y''\<rparr>])
   \<and> (0 < length (tasks ((SqStream ''q'')\<lparr>queueUrl := Some ''u'', tasks := [Receive]\<rparr>))
     \<and> tasks ((SqStream ''q'')\<lparr>queueUrl := Some ''u'', tasks := [Receive]\<rparr>) ! 0 = Receive
     \<and> \<not> waitingToEnd ((SqStream ''q'')\<lparr>queueUrl := Some ''u'', tasks := [Receive]\<rparr>)
     \<and> getUrl_cached ((SqStream ''q'')\<lparr>queueUrl := Some ''u'', tasks := [Receive]\<rparr>) = Some ''u''
     \<and> run ((SqStream ''q'')\<lparr>queueUrl := Some ''u'', tasks := [Receive]\<rparr>)
          [Run 0 (ReceiveReply (Inr (Some [\<lparr>MessageId = ''a'', ReceiptHandle = ''h'', Body = ''x''\<rparr>,
                                          \<lparr>MessageId = ''b'', ReceiptHandle = ''k'', Body = ''y''\<rparr>]))),
           Run 0 Fired, Run 0 Fired, Run 0 (DeleteReply None)] =
        Some ((SqStream ''q'')\<lparr>queueUrl := Some ''u'',
                trace := [DeleteMessageBatch [DeleteEntry ''a'' ''h'', DeleteEntry ''b'' ''k''] ''u'',
                          Push \<lparr>MessageId = ''a'', ReceiptHandle = ''h'', Body = ''x''\<rparr>,
                          Push \<lparr>MessageId = ''b'', ReceiptHandle = ''k'', Body = ''y''\<rparr>]\<rparr>))"
  using read_delivery [where s = "(SqStream ''q'')\<lparr>inFlightAcks := 1,
            tasks := [DeleteBatch [\<lparr>MessageId = ''a'', ReceiptHandle = ''h'', Body = ''x''\<rparr>,
                                   \<lparr>MessageId = ''b'', ReceiptHandle = ''k'', Body = ''y''\<rparr>]]\<rparr>"
      and e = "Run 0 (DeleteReply None)"
      and s' = "(SqStream ''q'')\<lparr>trace := [Push \<lparr>MessageId = ''a'', ReceiptHandle = ''h'', Body = ''x''\<rparr>,
                                          Push \<lparr>MessageId = ''b'', ReceiptHandle = ''k'', Body = ''y''\<rparr>]\<rparr>"
      and i = 0 and t = "(SqStream ''q'')\<lparr>queueUrl := Some ''u'', tasks := [Receive]\<rparr>"
      and msgs = "[\<lparr>MessageId = ''a'', ReceiptHandle = ''h'', Body = ''x''\<rparr>,
                   \<lparr>MessageId = ''b'', ReceiptHandle = ''k'', Body = ''y''\<rparr>]"
      and url = "''u''" and r = None]
  by (simp add: sq_defs SqStream_def remove_nth_def forEach_push_eq)

subsection \<open>A failed acknowledgment\<close>

lemma errors_url_settled: "errors (trace (url_settled k r s)) = errors (trace s)"
  by (cases "(k, r, s)" rule: url_settled.cases) (auto simp: sq_defs observe_append)

lemma errors_dispatch:
  "dispatch t r s = Some s' \<Longrightarrow>
   errors (trace s') =
   errors (trace s) @ (case r of SendReply (Some err) \<Rightarrow> [err] | _ \<Rightarrow> [])"
  apply (cases "(t, r, s)" rule: dispatch.cases)
  apply (auto simp: sq_defs observe_append errors_url_settled Let_def forEach_push_eq observe_map_Push
        split: option.splits if_splits prod.splits sum.splits)
  done

lemma errors_step:
  assumes "step s e = Some s'"
  shows "errors (trace s') =
         errors (trace s) @ (case e of Run i (SendReply (Some err)) \<Rightarrow> [err] | _ \<Rightarrow> [])"
proof (cases e)
  case (Run i r)
  with assms have "dispatch (tasks s ! i) r (s\<lparr>tasks := remove_nth i (tasks s)\<rparr>) = Some s'"
    using step_Run by blast
  from errors_dispatch [OF this] Run show ?thesis by simp
qed (use assms in \<open>auto simp: sq_defs Let_def observe_append split: if_splits\<close>)

text \<open>
  C1. When the delete request of a batch fails, the \<^verbatim>\<open>fail\<close> handler rejects the deferred
  of \<open>handleMessages\<close> and the \<^verbatim>\<open>fin\<close> handler decrements the counter: the object
  changes in nothing but the counter. \<^verbatim>\<open>_read\<close> attaches no handler to that promise and
  nothing calls \<^verbatim>\<open>emit('error')\<close>. In the run below \<^verbatim>\<open>receiveMessage\<close> returns two
  messages and \<^verbatim>\<open>deleteMessageBatch\<close> calls back with an error: no message is pushed,
  the counter is back at 0, and no error is emitted, where the claim asks for one.
\<close>

theorem delete_failure_is_silent:
  "delete_settled msgs (Some err) s = s\<lparr>inFlightAcks := inFlightAcks s - 1\<rparr>
   \<and> run (SqStream ''q'')
       [Read, Run 0 Fired, Run 0 (UrlReply (Inr ''u'')),
        Run 0 (ReceiveReply (Inr (Some [\<lparr>MessageId = ''a'', ReceiptHandle = ''h'', Body = ''x''\<rparr>,
                                        \<lparr>MessageId = ''b'', ReceiptHandle = ''k'', Body = ''y''\<rparr>]))),
        Run 0 Fired, Run 0 Fired, Run 0 (DeleteReply (Some (SqsError ''denied'')))] =
      Some ((SqStream ''q'')\<lparr>queueUrl := Some ''u'',
              trace := [GetQueueUrl ''q'', ReceiveMessage ''u'' 10 30,
                        DeleteMessageBatch [DeleteEntry ''a'' ''h'', DeleteEntry ''b'' ''k''] ''u'']\<rparr>)
   \<and> errors [GetQueueUrl ''q'', ReceiveMessage ''u'' 10 30,
              DeleteMessageBatch [DeleteEntry ''a'' ''h'', DeleteEntry ''b'' ''k''] ''u''] = []
   \<and> pushed [GetQueueUrl ''q'', ReceiveMessage ''u'' 10 30,
              DeleteMessageBatch [DeleteEntry ''a'' ''h'', DeleteEntry ''b'' ''k''] ''u''] = []
   \<and> inFlightAcks ((SqStream ''q'')\<lparr>queueUrl := Some ''u'',
              trace := [GetQueueUrl ''q'', ReceiveMessage ''u'' 10 30,
                        DeleteMessageBatch [DeleteEntry ''a'' ''h'', DeleteEntry ''b'' ''k''] ''u'']\<rparr>) = 0"
  by (simp add: sq_defs SqStream_def remove_nth_def)

subsection \<open>The number of entries of a batch\<close>

lemma length_reduce_entries: "length (reduce_entries memo idx ms) = length memo + length ms"
  by (induction ms arbitrary: memo idx) auto

lemma list_all_remove_nth: "list_all P xs \<Longrightarrow> list_all P (remove_nth i xs)"
  by (auto simp: remove_nth_def list_all_iff dest: in_set_takeD in_set_dropD)

lemma flush_fits_lookup: "flush_fits n (UrlLookup k) = flush_fits n (UrlImmediate k)"
  by (cases k) auto

lemma bounded_url_settled:
  assumes "batch_bounded s" and "flush_fits (maxMessagesPerSend s) (UrlImmediate k)"
  shows "batch_bounded (url_settled k r s)"
  using assms
  by (cases "(k, r, s)" rule: url_settled.cases)
     (auto simp: sq_defs batch_bounded_def observe_append)

lemma bounded_processWrites:
  assumes "length (pendingWrites s) \<le> maxMessagesPerSend s" and "0 < maxMessagesPerSend s"
    and "list_all (flush_fits (maxMessagesPerSend s)) (tasks s)"
    and "list_all (\<lambda>(url, es). length es \<le> maxMessagesPerSend s) (sent (trace s))"
  shows "batch_bounded (processWrites s)"
  using assms
  by (auto simp: processWrites_def getUrl_def schedule_def batch_bounded_def Let_def
        length_reduce_entries)

lemma bounded_queueWrite:
  assumes "batch_bounded s"
  shows "batch_bounded (queueWrite m cb s)"
proof -
  let ?s2 = "s\<lparr>trace := trace s @ [WriteCallback cb], pendingWrites := pendingWrites s @ [m]\<rparr>"
  show ?thesis
  proof (cases "readyForWrite None ?s2")
    case True
    then have "length (pendingWrites ?s2) < maxMessagesPerSend ?s2"
      by (simp add: readyForWrite_def split: if_splits)
    with assms True show ?thesis
      by (simp add: queueWrite_def call_def Let_def batch_bounded_def observe_append)
  next
    case False
    from assms have "batch_bounded (processWrites ?s2)"
      by (intro bounded_processWrites) (auto simp: batch_bounded_def observe_append)
    with False show ?thesis
      by (simp add: queueWrite_def call_def Let_def)
  qed
qed

lemma bounded_dispatch:
  assumes d: "dispatch t r s = Some s'" and b: "batch_bounded s"
    and f: "flush_fits (maxMessagesPerSend s) t"
  shows "batch_bounded s'"
proof (cases t)
  case (UrlImmediate k)
  with d have s': "s' = getUrl_immediate k s" by (cases r) auto
  show ?thesis
  proof (cases "getUrl_cached s")
    case None
    with b f UrlImmediate show ?thesis
      by (auto simp: s' getUrl_immediate_def schedule_def call_def batch_bounded_def
            flush_fits_lookup observe_append)
  next
    case (Some u)
    with bounded_url_settled [OF b f [unfolded UrlImmediate], of "Inr u"] show ?thesis
      by (simp add: s' getUrl_immediate_def)
  qed
next
  case (UrlLookup k)
  with d obtain x where s': "s' = getUrl_callback k x s" by (cases r) auto
  from f UrlLookup have f': "flush_fits (maxMessagesPerSend s) (UrlImmediate k)"
    by (simp add: flush_fits_lookup)
  show ?thesis
  proof (cases x)
    case (Inl err)
    with bounded_url_settled [OF b f', of "Inl err"] show ?thesis
      by (simp add: s' getUrl_callback_def getUrl_lookup_done_def)
  next
    case (Inr u)
    from b f' have "batch_bounded (s\<lparr>queueUrl := Some u\<rparr>)"
      and "flush_fits (maxMessagesPerSend (s\<lparr>queueUrl := Some u\<rparr>)) (UrlImmediate k)"
      by (simp_all add: batch_bounded_def)
    from bounded_url_settled [OF this, of "Inr u"] Inr show ?thesis
      by (simp add: s' getUrl_callback_def getUrl_lookup_done_def)
  qed
next
  case (WriteTimer m cb)
  with d have s': "s' = write_tick m cb s" by (cases r) auto
  from b bounded_queueWrite [OF b, of m cb] show ?thesis
    by (auto simp: s' write_tick_def schedule_def batch_bounded_def)
qed (use d b in \<open>(cases "(t, r, s)" rule: dispatch.cases;
       auto simp: handleMessages_def deleteMessages_def deleteMessages_immediate_def
            delete_settled_def sendMessageBatch_callback_def drain_tick_def getUrl_def
            schedule_def call_def batch_bounded_def Let_def forEach_push_eq observe_append
            observe_map_Push
            split: option.splits if_splits sum.splits)+\<close>)

lemma bounded_step:
  assumes "batch_bounded s" and "step s e = Some s'"
  shows "batch_bounded s'"
proof (cases e)
  case (Run i r)
  with assms have i: "i < length (tasks s)"
    and d: "dispatch (tasks s ! i) r (s\<lparr>tasks := remove_nth i (tasks s)\<rparr>) = Some s'"
    using step_Run by blast+
  from assms(1) have "batch_bounded (s\<lparr>tasks := remove_nth i (tasks s)\<rparr>)"
    by (simp add: batch_bounded_def list_all_remove_nth)
  moreover from assms(1) i
  have "flush_fits (maxMessagesPerSend (s\<lparr>tasks := remove_nth i (tasks s)\<rparr>)) (tasks s ! i)"
    by (simp add: batch_bounded_def list_all_length)
  ultimately show ?thesis using d bounded_dispatch by blast
next
  case Read
  with assms show ?thesis
    by (auto simp: sq_read_def getMessages_def getUrl_def schedule_def batch_bounded_def)
next
  case (Write c cb)
  with assms bounded_queueWrite [OF assms(1), of "normalize c" cb] show ?thesis
    by (auto simp: sq_write_def schedule_def batch_bounded_def Let_def split: if_splits)
next
  case Prefinish
  from assms(1) have "batch_bounded (processWrites s)"
    by (intro bounded_processWrites) (auto simp: batch_bounded_def)
  with assms Prefinish show ?thesis by simp
qed

lemma bounded_run:
  "batch_bounded s \<Longrightarrow> run s es = Some s' \<Longrightarrow> batch_bounded s'"
  by (induction es arbitrary: s) (auto split: option.splits dest: bounded_step)

lemma bounded_init: "batch_bounded (SqStream name)"
  by (simp add: batch_bounded_def SqStream_def)

lemma limit_url_settled: "maxMessagesPerSend (url_settled k r s) = maxMessagesPerSend s"
  by (cases "(k, r, s)" rule: url_settled.cases) (auto simp: sq_defs)

lemma limit_dispatch:
  "dispatch t r s = Some s' \<Longrightarrow> maxMessagesPerSend s' = maxMessagesPerSend s"
  apply (cases "(t, r, s)" rule: dispatch.cases)
  apply (auto simp: sq_defs limit_url_settled Let_def forEach_push_eq
        split: option.splits if_splits prod.splits sum.splits)
  done

lemma limit_step: "step s e = Some s' \<Longrightarrow> maxMessagesPerSend s' = maxMessagesPerSend s"
  by (cases e) (auto simp: sq_defs Let_def split: if_splits dest!: step_Run dest: limit_dispatch)

lemma limit_run: "run s es = Some s' \<Longrightarrow> maxMessagesPerSend s' = maxMessagesPerSend s"
  by (induction es arbitrary: s) (auto split: option.splits dest: limit_step)

text \<open>
  Whatever the writes and the replies, a batch handed to \<^verbatim>\<open>sendMessageBatch\<close> has at most
  10 entries.
\<close>

lemma flushed_batches_bounded:
  assumes "run (SqStream name) es = Some s" and "(url, entries) \<in> set (sent (trace s))"
  shows "length entries \<le> 10"
proof -
  from limit_run [OF assms(1)] have "maxMessagesPerSend s = 10"
    by (simp add: SqStream_def)
  with bounded_run [OF bounded_init assms(1)] assms(2) show ?thesis
    by (auto simp: batch_bounded_def list_all_iff)
qed

subsection \<open>A write admitted at a retry\<close>

lemma length_half_max_payload: "length half_max_payload = 131072"
  by (simp only: half_max_payload_def length_replicate)

lemma oversized_write:
  assumes "262144 \<le> 2 * length m"
  shows "run (SqStream name) [Write (Text m) cb, Run 0 Fired, Run 0 Fired, Run 0 (UrlReply (Inr u))] =
         Some ((SqStream name)\<lparr>queueUrl := Some u, sendingMessages := True, tasks := [SendBatch],
                 trace := [WriteCallback cb, GetQueueUrl name,
                           SendMessageBatch u [SendEntry ''0'' m]]\<rparr>)"
proof -
  from assms have ne: "m \<noteq> []" by auto
  have 1: "step (SqStream name) (Write (Text m) cb) = Some ((SqStream name)\<lparr>tasks := [WriteTimer m cb]\<rparr>)"
    using assms ne by (simp add: sq_write_def readyForWrite_def byteLength_def truthy_def SqStream_def schedule_def)
  have 2: "step ((SqStream name)\<lparr>tasks := [WriteTimer m cb]\<rparr>) (Run 0 Fired) =
           Some ((SqStream name)\<lparr>sendingMessages := True,
                   tasks := [UrlImmediate (ForSend [SendEntry ''0'' m])],
                   trace := [WriteCallback cb]\<rparr>)"
    using assms
    by (simp add: sq_defs SqStream_def remove_nth_def toString.simps digit_def)
  have 3: "run ((SqStream name)\<lparr>sendingMessages := True,
                   tasks := [UrlImmediate (ForSend [SendEntry ''0'' m])],
                   trace := [WriteCallback cb]\<rparr>) [Run 0 Fired, Run 0 (UrlReply (Inr u))] =
           Some ((SqStream name)\<lparr>queueUrl := Some u, sendingMessages := True, tasks := [SendBatch],
                 trace := [WriteCallback cb, GetQueueUrl name,
                           SendMessageBatch u [SendEntry ''0'' m]]\<rparr>)"
    by (simp add: sq_defs SqStream_def remove_nth_def)
  show ?thesis
    using 3 by (simp only: run.simps 1 2 option.case)
qed

text \<open>
  C4. The interval of \<^verbatim>\<open>_write\<close> calls \<open>readyForWrite\<close> without the payload, so the
  size of the waiting payload is not counted at a retry. A payload of 131072 bytes is
  refused by the first check (twice its length is not below 262144); the first tick
  of the interval admits it into the empty buffer, and it is flushed in a batch whose
  doubled byte length is not below \<open>maxMessageSize\<close>.
\<close>

theorem retry_admits_oversized_write:
  "\<not> readyForWrite (Some half_max_payload) (SqStream ''q'')
   \<and> run (SqStream ''q'')
       [Write (Text half_max_payload) 0, Run 0 Fired, Run 0 Fired, Run 0 (UrlReply (Inr ''u''))] =
      Some ((SqStream ''q'')\<lparr>queueUrl := Some ''u'', sendingMessages := True, tasks := [SendBatch],
              trace := [WriteCallback 0, GetQueueUrl ''q'',
                        SendMessageBatch ''u'' [SendEntry ''0'' half_max_payload]]\<rparr>)
   \<and> \<not> 2 * byteLength half_max_payload < maxMessageSize (SqStream ''q'')"
proof -
  have "262144 \<le> 2 * length half_max_payload"
    by (simp add: length_half_max_payload)
  moreover have "half_max_payload \<noteq> []"
    using length_half_max_payload by fastforce
  ultimately show ?thesis
    using oversized_write [of half_max_payload "''q''" 0 "''u''"]
    by (simp add: readyForWrite_def byteLength_def truthy_def SqStream_def length_half_max_payload
          candidate_size del: run.simps)
qed

subsection \<open>One flush at a time; a flush whose address lookup fails\<close>
















subsection \<open>The write callback\<close>


lemma sent_url_settled:
  "\<not> flush_task (UrlImmediate k) \<Longrightarrow> sent (trace (url_settled k r s)) = sent (trace s)"
  by (cases "(k, r, s)" rule: url_settled.cases) (auto simp: sq_defs observe_append)







subsection \<open>Resolving the address\<close>

lemma cached_url_settled:
  "queueUrl (url_settled k r s) = queueUrl s"
  "lookups (trace (url_settled k r s)) = lookups (trace s)"
  by (cases "(k, r, s)" rule: url_settled.cases; simp add: sq_defs observe_append)+

lemma cached_dispatch:
  assumes d: "dispatch t r s = Some s'" and c: "queueUrl s = Some u" and u: "u \<noteq> []"
    and a: "answers u (Run i r)"
  shows "queueUrl s' = Some u \<and> lookups (trace s') = lookups (trace s)"
  using d c u a
  apply (cases "(t, r, s)" rule: dispatch.cases)
  apply (auto simp: sq_defs cached_url_settled Let_def forEach_push_eq observe_append observe_map_Push
        split: option.splits if_splits prod.splits sum.splits)
  done


lemma cached_step:
  assumes "step s e = Some s'" and "queueUrl s = Some u" and "u \<noteq> []" and "answers u e"
  shows "queueUrl s' = Some u \<and> lookups (trace s') = lookups (trace s)"
proof (cases e)
  case (Run i r)
  with assms have "dispatch (tasks s ! i) r (s\<lparr>tasks := remove_nth i (tasks s)\<rparr>) = Some s'"
    using step_Run by blast
  from cached_dispatch [OF this, of u i] assms Run show ?thesis by simp
qed (use assms in \<open>auto simp: sq_defs Let_def observe_append split: if_splits\<close>)

lemma cached_run:
  "run s es = Some s' \<Longrightarrow> queueUrl s = Some u \<Longrightarrow> u \<noteq> [] \<Longrightarrow> list_all (answers u) es \<Longrightarrow>
   queueUrl s' = Some u \<and> lookups (trace s') = lookups (trace s)"
proof (induction es arbitrary: s)
  case Nil
  then show ?case by simp
next
  case (Cons e es)
  then obtain s1 where s1: "step s e = Some s1" and r: "run s1 es = Some s'"
    by (auto split: option.splits)
  from Cons.prems have "answers u e" and "list_all (answers u) es" by simp_all
  with cached_step [OF s1 Cons.prems(2,3)] Cons.IH [OF r] Cons.prems(3) show ?case by simp
qed

lemma lookup_succeeds:
  assumes "i < length (tasks t)" and "tasks t ! i = UrlLookup k"
    and "step t (Run i (UrlReply (Inr u))) = Some t1"
  shows "queueUrl t1 = Some u \<and> lookups (trace t1) = lookups (trace t)"
  using assms by (auto simp: getUrl_callback_def getUrl_lookup_done_def cached_url_settled)

lemma lookup_fails:
  assumes "j < length (tasks l)" and "tasks l ! j = UrlLookup k"
    and "step l (Run j (UrlReply (Inl err))) = Some l1"
  shows "queueUrl l1 = queueUrl l \<and> lookups (trace l1) = lookups (trace l)"
  using assms by (auto simp: getUrl_callback_def getUrl_lookup_done_def cached_url_settled)

text \<open>
  C5. A call of \<open>getUrl\<close> that finds no address in the cache issues a lookup by the
  name of the queue; the cache of a new stream is empty, so its first call does. When
  a lookup succeeds with an address \<open>u\<close> (a queue URL, so not the empty string), the
  address is stored, and from then on, as long as the service answers every lookup
  still under way with the same \<open>u\<close>, every call of \<open>getUrl\<close> resolves with \<open>u\<close> out
  of the cache and no further lookup is issued. When a lookup fails, the promise is
  rejected with the error and the state is left as it was: nothing is cached, and with
  the cache still empty the next call issues a lookup again.
\<close>

theorem address_resolution:
  "(getUrl_cached s = None \<longrightarrow>
      getUrl_immediate k s = schedule (UrlLookup k) (call (GetQueueUrl (queueName s)) s))
   \<and> run (SqStream name) [Read, Run 0 Fired] =
        Some ((SqStream name)\<lparr>tasks := [UrlLookup ForReceive], trace := [GetQueueUrl name]\<rparr>)
   \<and> (u \<noteq> [] \<and> i < length (tasks t) \<and> tasks t ! i = UrlLookup k1
        \<and> step t (Run i (UrlReply (Inr u))) = Some t1
        \<and> list_all (answers u) es \<and> run t1 es = Some t2 \<longrightarrow>
      getUrl_cached t2 = Some u
      \<and> getUrl_immediate k2 t2 = url_settled k2 (Inr u) t2
      \<and> lookups (trace t2) = lookups (trace t))
   \<and> getUrl_lookup_done (Inl err) l = (l, Inl err)
   \<and> (getUrl_cached l = None \<and> j < length (tasks l) \<and> tasks l ! j = UrlLookup k3
        \<and> step l (Run j (UrlReply (Inl err))) = Some l1 \<longrightarrow>
      getUrl_cached l1 = None \<and> lookups (trace l1) = lookups (trace l))"
proof (intro conjI impI)
  assume "getUrl_cached s = None"
  then show "getUrl_immediate k s = schedule (UrlLookup k) (call (GetQueueUrl (queueName s)) s)"
    by (simp add: getUrl_immediate_def)
next
  show "run (SqStream name) [Read, Run 0 Fired] =
        Some ((SqStream name)\<lparr>tasks := [UrlLookup ForReceive], trace := [GetQueueUrl name]\<rparr>)"
    by (simp add: sq_defs SqStream_def remove_nth_def)
next
  assume a: "u \<noteq> [] \<and> i < length (tasks t) \<and> tasks t ! i = UrlLookup k1
        \<and> step t (Run i (UrlReply (Inr u))) = Some t1
        \<and> list_all (answers u) es \<and> run t1 es = Some t2"
  then have 1: "queueUrl t1 = Some u \<and> lookups (trace t1) = lookups (trace t)"
    using lookup_succeeds by blast
  with a have 2: "queueUrl t2 = Some u \<and> lookups (trace t2) = lookups (trace t1)"
    using cached_run by blast
  with a show c: "getUrl_cached t2 = Some u"
    by (simp add: getUrl_cached_def truthy_def)
  then show "getUrl_immediate k2 t2 = url_settled k2 (Inr u) t2"
    by (simp add: getUrl_immediate_def)
  from 1 2 show "lookups (trace t2) = lookups (trace t)" by simp
next
  show "getUrl_lookup_done (Inl err) l = (l, Inl err)"
    by (simp add: getUrl_lookup_done_def)
next
  assume b: "getUrl_cached l = None \<and> j < length (tasks l) \<and> tasks l ! j = UrlLookup k3
        \<and> step l (Run j (UrlReply (Inl err))) = Some l1"
  then have "queueUrl l1 = queueUrl l \<and> lookups (trace l1) = lookups (trace l)"
    using lookup_fails by blast
  with b show "getUrl_cached l1 = None" and "lookups (trace l1) = lookups (trace l)"
    by (simp_all add: getUrl_cached_def)
qed

theorem address_resolution_witness:
  "(getUrl_cached (SqStream ''q'') = None
     \<and> getUrl_immediate ForReceive (SqStream ''q'') =
         (SqStream ''q'')\<lparr>tasks := [UrlLookup ForReceive], trace := [GetQueueUrl ''q'']\<rparr>)
   \<and> (''u'' \<noteq> []
     \<and> 0 < length (tasks ((SqStream ''q'')\<lparr>tasks := [UrlLookup ForReceive, UrlLookup (ForSend [])],
                             trace := [GetQueueUrl ''q'', GetQueueUrl ''q'']\<rparr>))
     \<and> step ((SqStream ''q'')\<lparr>tasks := [UrlLookup ForReceive, UrlLookup (ForSend [])],
                trace := [GetQueueUrl ''q'', GetQueueUrl ''q'']\<rparr>) (Run 0 (UrlReply (Inr ''u''))) =
         Some ((SqStream ''q'')\<lparr>queueUrl := Some ''u'', tasks := [UrlLookup (ForSend []), Receive],
                 trace := [GetQueueUrl ''q'', GetQueueUrl ''q'', ReceiveMessage ''u'' 10 30]\<rparr>)
     \<and> list_all (answers ''u'') [Read, Run 0 (UrlReply (Inr ''u'')), Run 1 Fired]
     \<and> run ((SqStream ''q'')\<lparr>queueUrl := Some ''u'', tasks := [UrlLookup (ForSend []), Receive],
                 trace := [GetQueueUrl ''q'', GetQueueUrl ''q'', ReceiveMessage ''u'' 10 30]\<rparr>)
           [Read, Run 0 (UrlReply (Inr ''u'')), Run 1 Fired] =
         Some ((SqStream ''q'')\<lparr>queueUrl := Some ''u'', tasks := [Receive, SendBatch, Receive],
                 trace := [GetQueueUrl ''q'', GetQueueUrl ''q'', ReceiveMessage ''u'' 10 30,
                           SendMessageBatch ''u'' [], ReceiveMessage ''u'' 10 30]\<rparr>)
     \<and> lookups [GetQueueUrl ''q'', GetQueueUrl ''q'', ReceiveMessage ''u'' 10 30,
                 SendMessageBatch ''u'' [], ReceiveMessage ''u'' 10 30] = [''q'', ''q''])
   \<and> (0 < length (tasks ((SqStream ''q'')\<lparr>tasks := [UrlLookup ForReceive], trace := [GetQueueUrl ''q'']\<rparr>))
     \<and> step ((SqStream ''q'')\<lparr>tasks := [UrlLookup ForReceive], trace := [GetQueueUrl ''q'']\<rparr>)
           (Run 0 (UrlReply (Inl (SqsError ''no such queue'')))) =
         Some ((SqStream ''q'')\<lparr>trace := [GetQueueUrl ''q'']\<rparr>)
     \<and> getUrl_cached ((SqStream ''q'')\<lparr>trace := [GetQueueUrl ''q'']\<rparr>) = None)"
  using address_resolution [where s = "SqStream ''q''" and k = ForReceive and name = "''q''"
      and u = "''u''" and i = 0
      and t = "(SqStream ''q'')\<lparr>tasks := [UrlLookup ForReceive, UrlLookup (ForSend [])],
                trace := [GetQueueUrl ''q'', GetQueueUrl ''q'']\<rparr>"
      and ?k1.0 = ForReceive
      and ?t1.0 = "(SqStream ''q'')\<lparr>queueUrl := Some ''u'', tasks := [UrlLookup (ForSend []), Receive],
                 trace := [GetQueueUrl ''q'', GetQueueUrl ''q'', ReceiveMessage ''u'' 10 30]\<rparr>"
      and es = "[Read, Run 0 (UrlReply (Inr ''u'')), Run 1 Fired]"
      and ?t2.0 = "(SqStream ''q'')\<lparr>queueUrl := Some ''u'', tasks := [Receive, SendBatch, Receive],
                 trace := [GetQueueUrl ''q'', GetQueueUrl ''q'', ReceiveMessage ''u'' 10 30,
                           SendMessageBatch ''u'' [], ReceiveMessage ''u'' 10 30]\<rparr>"
      and ?k2.0 = ForReceive and err = "SqsError ''no such queue''"
      and l = "(SqStream ''q'')\<lparr>tasks := [UrlLookup ForReceive], trace := [GetQueueUrl ''q'']\<rparr>"
      and j = 0 and ?k3.0 = ForReceive
      and ?l1.0 = "(SqStream ''q'')\<lparr>trace := [GetQueueUrl ''q'']\<rparr>"]
  by (simp add: sq_defs SqStream_def remove_nth_def)

end
